theory Spec2Isabelle
  imports Main
begin

section \<open>Exceptions\<close>

text \<open>
  The Python exceptions that the script and the library calls it makes can raise.
  A computation that may raise returns \<open>exn + 'a\<close>, with \<open>Inl\<close> for the exception
  that leaves the function.
\<close>

datatype exn =
    RequestException
  | ValueError
  | ParserError
  | AttributeError
  | TypeError
  | StreamlitAPIException

section \<open>Decimal strings\<close>

definition digit_char :: "nat \<Rightarrow> char" where
  "digit_char n = ''0123456789'' ! n"

definition is_digit :: "char \<Rightarrow> bool" where
  "is_digit c = (48 \<le> (of_char c :: nat) \<and> (of_char c :: nat) \<le> 57)"

definition digit_val :: "char \<Rightarrow> nat" where
  "digit_val c = of_char c - 48"

text \<open>\<open>in_range lo hi c\<close>: the regular-expression class \<open>[lo-hi]\<close> on digits.\<close>

definition in_range :: "nat \<Rightarrow> nat \<Rightarrow> char \<Rightarrow> bool" where
  "in_range lo hi c = (is_digit c \<and> lo \<le> digit_val c \<and> digit_val c \<le> hi)"

text \<open>Python's \<open>str\<close> on a non-negative and on an arbitrary integer.\<close>

fun str_nat :: "nat \<Rightarrow> string" where
  "str_nat n = (if n < 10 then [digit_char n]
                else str_nat (n div 10) @ [digit_char (n mod 10)])"

declare str_nat.simps [simp del]

definition str_int :: "int \<Rightarrow> string" where
  "str_int i = (if i < 0 then CHR ''-'' # str_nat (nat (- i)) else str_nat (nat i))"

text \<open>Zero padding to two digits, as \<open>%m\<close> and \<open>%d\<close> of \<open>strftime\<close> print.\<close>

definition pad2 :: "nat \<Rightarrow> string" where
  "pad2 n = (if n < 10 then CHR ''0'' # str_nat n else str_nat n)"

section \<open>Calendar dates\<close>

text \<open>
  The proleptic Gregorian calendar of Python's \<open>datetime.date\<close>, which
  \<open>pandas\<close> uses to resolve a day of the year: \<open>_is_leap\<close>, \<open>_days_before_year\<close>,
  \<open>_days_in_month\<close>, \<open>_days_before_month\<close>, \<open>_ymd2ord\<close> and \<open>_ord2ymd\<close>.
\<close>

record date =
  year :: int
  month :: int
  day :: int

definition mk_date :: "int \<Rightarrow> int \<Rightarrow> int \<Rightarrow> date" where
  "mk_date y m d = \<lparr>year = y, month = m, day = d\<rparr>"

definition is_leap :: "int \<Rightarrow> bool" where
  "is_leap y = (y mod 4 = 0 \<and> (y mod 100 \<noteq> 0 \<or> y mod 400 = 0))"

definition days_before_year :: "int \<Rightarrow> int" where
  "days_before_year yr = (let y = yr - 1 in y * 365 + y div 4 - y div 100 + y div 400)"

definition DAYS_IN_MONTH :: "int \<Rightarrow> int" where
  "DAYS_IN_MONTH m =
     (if m = 2 then 28
      else if m = 4 \<or> m = 6 \<or> m = 9 \<or> m = 11 then 30
      else if 1 \<le> m \<and> m \<le> 12 then 31 else -1)"

definition DAYS_BEFORE_MONTH :: "int \<Rightarrow> int" where
  "DAYS_BEFORE_MONTH m =
     (if m = 1 then 0 else if m = 2 then 31 else if m = 3 then 59
      else if m = 4 then 90 else if m = 5 then 120 else if m = 6 then 151
      else if m = 7 then 181 else if m = 8 then 212 else if m = 9 then 243
      else if m = 10 then 273 else if m = 11 then 304 else if m = 12 then 334
      else -1)"

definition days_in_month :: "int \<Rightarrow> int \<Rightarrow> int" where
  "days_in_month y m = (if m = 2 \<and> is_leap y then 29 else DAYS_IN_MONTH m)"

definition days_before_month :: "int \<Rightarrow> int \<Rightarrow> int" where
  "days_before_month y m = DAYS_BEFORE_MONTH m + (if m > 2 \<and> is_leap y then 1 else 0)"

text \<open>\<open>date(y, m, d)\<close> raises \<open>ValueError\<close> unless the triple is a day of the calendar.\<close>

definition valid_date :: "date \<Rightarrow> bool" where
  "valid_date d =
     (1 \<le> year d \<and> year d \<le> 9999 \<and> 1 \<le> month d \<and> month d \<le> 12 \<and>
      1 \<le> day d \<and> day d \<le> days_in_month (year d) (month d))"

definition ymd2ord :: "int \<Rightarrow> int \<Rightarrow> int \<Rightarrow> int" where
  "ymd2ord y m d = days_before_year y + days_before_month y m + d"

definition toordinal :: "date \<Rightarrow> int" where
  "toordinal d = ymd2ord (year d) (month d) (day d)"

definition DI400Y :: int where "DI400Y = 146097"
definition DI100Y :: int where "DI100Y = 36524"
definition DI4Y :: int where "DI4Y = 1461"

definition ord2ymd :: "int \<Rightarrow> date" where
  "ord2ymd n0 =
     (let n = n0 - 1;
          n400 = n div DI400Y; n = n mod DI400Y;
          yr = n400 * 400 + 1;
          n100 = n div DI100Y; n = n mod DI100Y;
          n4 = n div DI4Y; n = n mod DI4Y;
          n1 = n div 365; n = n mod 365;
          yr = yr + n100 * 100 + n4 * 4 + n1
      in if n1 = 4 \<or> n100 = 4 then mk_date (yr - 1) 12 31
         else
           let leapyear = (n1 = 3 \<and> (n4 \<noteq> 24 \<or> n100 = 3));
               mth = (n + 50) div 32;
               preceding = DAYS_BEFORE_MONTH mth + (if mth > 2 \<and> leapyear then 1 else 0);
               (mth, preceding) =
                  (if preceding > n
                   then (mth - 1,
                         preceding - (DAYS_IN_MONTH (mth - 1)
                                      + (if mth - 1 = 2 \<and> leapyear then 1 else 0)))
                   else (mth, preceding))
           in mk_date yr mth (n - preceding + 1))"

text \<open>\<open>date.fromordinal\<close> accepts the ordinals of the years 1 to 9999 only.\<close>

definition fromordinal :: "int \<Rightarrow> exn + date" where
  "fromordinal n = (if 1 \<le> n \<and> n \<le> 3652059 then Inr (ord2ymd n) else Inl ValueError)"

section \<open>Parsing and printing dates\<close>

text \<open>
  \<open>pandas.to_datetime(s, format='%Y%j')\<close> matches the string against the regular
  expression of the format, as \<open>strptime\<close> does: \<open>%Y\<close> is \<open>\d\d\d\d\<close> and \<open>%j\<close> is
  \<open>36[0-6]|3[0-5]\d|[1-2]\d\d|0[1-9]\d|00[1-9]|[1-9]\d|0[1-9]|[1-9]\<close>, the
  alternatives tried from left to right. A string that does not match, or that has
  characters left after the match, raises \<open>ValueError\<close>.
\<close>

definition m1 :: "(char \<Rightarrow> bool) \<Rightarrow> string \<Rightarrow> (nat \<times> string) option" where
  "m1 p s = (case s of a # rest \<Rightarrow> if p a then Some (digit_val a, rest) else None
             | _ \<Rightarrow> None)"

definition m2 :: "(char \<Rightarrow> bool) \<Rightarrow> (char \<Rightarrow> bool) \<Rightarrow> string \<Rightarrow> (nat \<times> string) option" where
  "m2 p q s = (case s of a # b # rest \<Rightarrow>
                 if p a \<and> q b then Some (10 * digit_val a + digit_val b, rest) else None
               | _ \<Rightarrow> None)"

definition m3 :: "(char \<Rightarrow> bool) \<Rightarrow> (char \<Rightarrow> bool) \<Rightarrow> (char \<Rightarrow> bool) \<Rightarrow> string
                    \<Rightarrow> (nat \<times> string) option" where
  "m3 p q r s = (case s of a # b # c # rest \<Rightarrow>
                   if p a \<and> q b \<and> r c
                   then Some (100 * digit_val a + 10 * digit_val b + digit_val c, rest)
                   else None
                 | _ \<Rightarrow> None)"

definition orelse :: "'a option \<Rightarrow> 'a option \<Rightarrow> 'a option" where
  "orelse a b = (case a of Some x \<Rightarrow> Some x | None \<Rightarrow> b)"

definition match_Y :: "string \<Rightarrow> (nat \<times> string) option" where
  "match_Y s = (case s of a # b # c # d # rest \<Rightarrow>
                  if is_digit a \<and> is_digit b \<and> is_digit c \<and> is_digit d
                  then Some (1000 * digit_val a + 100 * digit_val b + 10 * digit_val c
                             + digit_val d, rest)
                  else None
                | _ \<Rightarrow> None)"

definition match_j :: "string \<Rightarrow> (nat \<times> string) option" where
  "match_j s =
     orelse (m3 (in_range 3 3) (in_range 6 6) (in_range 0 6) s)
    (orelse (m3 (in_range 3 3) (in_range 0 5) is_digit s)
    (orelse (m3 (in_range 1 2) is_digit is_digit s)
    (orelse (m3 (in_range 0 0) (in_range 1 9) is_digit s)
    (orelse (m3 (in_range 0 0) (in_range 0 0) (in_range 1 9) s)
    (orelse (m2 (in_range 1 9) is_digit s)
    (orelse (m2 (in_range 0 0) (in_range 1 9) s)
            (m1 (in_range 1 9) s)))))))"

text \<open>
  With the day of the year found, the date is
  \<open>date.fromordinal((julian - 1) + date(year, 1, 1).toordinal())\<close>.
\<close>

definition strptime_Yj :: "string \<Rightarrow> exn + date" where
  "strptime_Yj s =
     (case match_Y s of
        None \<Rightarrow> Inl ValueError
      | Some (y, r) \<Rightarrow>
          (case match_j r of
             None \<Rightarrow> Inl ValueError
           | Some (j, r') \<Rightarrow>
               if r' \<noteq> [] then Inl ValueError
               else if \<not> valid_date (mk_date (int y) 1 1) then Inl ValueError
               else fromordinal ((int j - 1) + toordinal (mk_date (int y) 1 1))))"

text \<open>
  A \<open>pandas\<close> timestamp counts nanoseconds since 1970-01-01 in 64 bits: the days
  from 1677-09-22 to 2262-04-11 are representable, any other day raises
  \<open>OutOfBoundsDatetime\<close>, a \<open>ValueError\<close>.
\<close>

definition in_bounds :: "date \<Rightarrow> bool" where
  "in_bounds d = (ymd2ord 1677 9 22 \<le> toordinal d \<and> toordinal d \<le> ymd2ord 2262 4 11)"

definition timestamp_value :: "date \<Rightarrow> int" where
  "timestamp_value d = (toordinal d - ymd2ord 1970 1 1) * 86400000000000"

definition to_timestamp :: "exn + date \<Rightarrow> exn + date" where
  "to_timestamp r = (case r of Inl e \<Rightarrow> Inl e
                     | Inr d \<Rightarrow> if in_bounds d then Inr d else Inl ValueError)"

definition to_datetime_Yj :: "string \<Rightarrow> exn + date" where
  "to_datetime_Yj s = to_timestamp (strptime_Yj s)"

text \<open>A conversion of a whole column stops at the first value that raises.\<close>

fun sequence :: "(exn + 'a) list \<Rightarrow> exn + 'a list" where
  "sequence [] = Inr []"
| "sequence (x # xs) =
     (case x of Inl e \<Rightarrow> Inl e
      | Inr v \<Rightarrow> (case sequence xs of Inl e \<Rightarrow> Inl e | Inr vs \<Rightarrow> Inr (v # vs)))"

text \<open>\<open>strftime('%m/%d/%Y')\<close>.\<close>

definition strftime_mdY :: "date \<Rightarrow> string" where
  "strftime_mdY d = pad2 (nat (month d)) @ ''/'' @ pad2 (nat (day d)) @ ''/'' @ str_int (year d)"

text \<open>
  \<open>pandas.to_datetime\<close> on the strings that \<open>strftime('%m/%d/%Y')\<close> printed reads
  them back as month, day and year: \<open>%m\<close> is \<open>1[0-2]|0[1-9]|[1-9]\<close>, \<open>%d\<close> is
  \<open>3[0-1]|[1-2]\d|0[1-9]|[1-9]| [1-9]\<close>. Each field is followed by a literal
  character or by the end of the string, so the first alternative that matches is the only
  one that can lead to a match of the whole string.
\<close>

definition match_m :: "string \<Rightarrow> (nat \<times> string) option" where
  "match_m s =
     orelse (m2 (in_range 1 1) (in_range 0 2) s)
    (orelse (m2 (in_range 0 0) (in_range 1 9) s)
            (m1 (in_range 1 9) s))"

definition match_d :: "string \<Rightarrow> (nat \<times> string) option" where
  "match_d s =
     orelse (m2 (in_range 3 3) (in_range 0 1) s)
    (orelse (m2 (in_range 1 2) is_digit s)
    (orelse (m2 (in_range 0 0) (in_range 1 9) s)
    (orelse (m1 (in_range 1 9) s)
            (case s of a # rest \<Rightarrow> if a = CHR '' '' then m1 (in_range 1 9) rest else None
             | _ \<Rightarrow> None))))"

definition match_slash :: "string \<Rightarrow> string option" where
  "match_slash s = (case s of a # rest \<Rightarrow> if a = CHR ''/'' then Some rest else None
                    | _ \<Rightarrow> None)"

definition strptime_mdY :: "string \<Rightarrow> exn + date" where
  "strptime_mdY s =
     (case match_m s of
        None \<Rightarrow> Inl ValueError
      | Some (m, r1) \<Rightarrow>
     (case match_slash r1 of
        None \<Rightarrow> Inl ValueError
      | Some r2 \<Rightarrow>
     (case match_d r2 of
        None \<Rightarrow> Inl ValueError
      | Some (d, r3) \<Rightarrow>
     (case match_slash r3 of
        None \<Rightarrow> Inl ValueError
      | Some r4 \<Rightarrow>
     (case match_Y r4 of
        None \<Rightarrow> Inl ValueError
      | Some (y, r5) \<Rightarrow>
          if r5 \<noteq> [] then Inl ValueError
          else if valid_date (mk_date (int y) (int m) (int d))
          then Inr (mk_date (int y) (int m) (int d))
          else Inl ValueError)))))"

definition to_datetime_mdY :: "string \<Rightarrow> exn + date" where
  "to_datetime_mdY s = to_timestamp (strptime_mdY s)"

text \<open>Python compares two \<open>date\<close> objects by year, then month, then day.\<close>

definition date_le :: "date \<Rightarrow> date \<Rightarrow> bool" where
  "date_le a b =
     (year a < year b \<or>
      (year a = year b \<and> (month a < month b \<or> (month a = month b \<and> day a \<le> day b))))"

section \<open>Reading the position file\<close>

text \<open>
  \<open>read_csv(data, delim_whitespace=True, header=None, names=column_names)\<close> with the
  ten names \<open>YYYY DDD X isWithinTolerance X(m) Y(m) Z(m) sigmaX(m) sigmaY(m) sigmaZ(m)\<close>.
  The text goes through the tokenizer of the C parser of \<open>pandas\<close>, here with the
  states and branches that these arguments and the defaults of the others can reach:
  space and tab delimit the fields, a line feed or a carriage return ends a line, a line
  without a field is skipped, and a double quote that begins a field opens a quoted part,
  in which blanks and line ends belong to the field and two quotes stand for one. The
  text may not end inside a quoted part.
\<close>

datatype tstate =
    START_RECORD
  | WHITESPACE_LINE
  | EAT_WHITESPACE
  | IN_FIELD
  | IN_QUOTED_FIELD
  | QUOTE_IN_QUOTED_FIELD
  | EAT_CRNL
  | EAT_CRNL_NOP

record parser =
  p_state :: tstate
  p_field :: string
  p_line :: "string list"
  p_lines :: "string list list"

definition is_blank :: "char \<Rightarrow> bool" where
  "is_blank c = (c = CHR '' '' \<or> c = CHR 0x09)"

definition IS_TERMINATOR :: "char \<Rightarrow> bool" where
  "IS_TERMINATOR c = (c = CHR 0x0A)"

definition IS_CARRIAGE :: "char \<Rightarrow> bool" where
  "IS_CARRIAGE c = (c = CHR 0x0D)"

definition IS_QUOTE :: "char \<Rightarrow> bool" where
  "IS_QUOTE c = (c = CHR 0x22)"

definition PUSH_CHAR :: "char \<Rightarrow> parser \<Rightarrow> parser" where
  "PUSH_CHAR c p = p\<lparr>p_field := p_field p @ [c]\<rparr>"

definition END_FIELD :: "parser \<Rightarrow> parser" where
  "END_FIELD p = p\<lparr>p_line := p_line p @ [p_field p], p_field := []\<rparr>"

definition END_LINE :: "parser \<Rightarrow> parser" where
  "END_LINE p = p\<lparr>p_lines := p_lines p @ [p_line p], p_line := [], p_state := START_RECORD\<rparr>"

text \<open>The cases of the tokenizer's \<open>switch\<close>; a case that falls through calls the next.\<close>

definition start_field :: "char \<Rightarrow> parser \<Rightarrow> parser" where
  "start_field c p =
     (if IS_TERMINATOR c then END_LINE (END_FIELD p)
      else if IS_CARRIAGE c then (END_FIELD p)\<lparr>p_state := EAT_CRNL\<rparr>
      else if IS_QUOTE c then p\<lparr>p_state := IN_QUOTED_FIELD\<rparr>
      else if is_blank c then p\<lparr>p_state := EAT_WHITESPACE\<rparr>
      else PUSH_CHAR c (p\<lparr>p_state := IN_FIELD\<rparr>))"

definition start_record :: "char \<Rightarrow> parser \<Rightarrow> parser" where
  "start_record c p =
     (if IS_TERMINATOR c then p
      else if IS_CARRIAGE c then p\<lparr>p_state := EAT_CRNL_NOP\<rparr>
      else if is_blank c then p\<lparr>p_state := WHITESPACE_LINE\<rparr>
      else start_field c p)"

definition eat_whitespace :: "char \<Rightarrow> parser \<Rightarrow> parser" where
  "eat_whitespace c p =
     (if IS_TERMINATOR c then END_LINE p
      else if IS_CARRIAGE c then p\<lparr>p_state := EAT_CRNL\<rparr>
      else if \<not> is_blank c then start_record c p
      else p)"

definition whitespace_line :: "char \<Rightarrow> parser \<Rightarrow> parser" where
  "whitespace_line c p =
     (if IS_TERMINATOR c then p\<lparr>p_state := START_RECORD\<rparr>
      else if IS_CARRIAGE c then p\<lparr>p_state := EAT_CRNL_NOP\<rparr>
      else eat_whitespace c p)"

definition in_field :: "char \<Rightarrow> parser \<Rightarrow> parser" where
  "in_field c p =
     (if IS_TERMINATOR c then END_LINE (END_FIELD p)
      else if IS_CARRIAGE c then (END_FIELD p)\<lparr>p_state := EAT_CRNL\<rparr>
      else if is_blank c then (END_FIELD p)\<lparr>p_state := EAT_WHITESPACE\<rparr>
      else PUSH_CHAR c p)"

definition in_quoted_field :: "char \<Rightarrow> parser \<Rightarrow> parser" where
  "in_quoted_field c p =
     (if IS_QUOTE c then p\<lparr>p_state := QUOTE_IN_QUOTED_FIELD\<rparr> else PUSH_CHAR c p)"

definition quote_in_quoted_field :: "char \<Rightarrow> parser \<Rightarrow> parser" where
  "quote_in_quoted_field c p =
     (if IS_QUOTE c then PUSH_CHAR c (p\<lparr>p_state := IN_QUOTED_FIELD\<rparr>)
      else if is_blank c then (END_FIELD p)\<lparr>p_state := EAT_WHITESPACE\<rparr>
      else if IS_TERMINATOR c then END_LINE (END_FIELD p)
      else if IS_CARRIAGE c then (END_FIELD p)\<lparr>p_state := EAT_CRNL\<rparr>
      else PUSH_CHAR c (p\<lparr>p_state := IN_FIELD\<rparr>))"

text \<open>
  After a carriage return: a line feed ends the line with it, a blank ends the line and
  is eaten, and any other character ends the line and is read again as the start of the
  next one.
\<close>

definition eat_crnl :: "char \<Rightarrow> parser \<Rightarrow> parser" where
  "eat_crnl c p =
     (if IS_TERMINATOR c then END_LINE p
      else if is_blank c then (END_LINE p)\<lparr>p_state := EAT_WHITESPACE\<rparr>
      else start_record c (END_LINE p))"

definition eat_crnl_nop :: "char \<Rightarrow> parser \<Rightarrow> parser" where
  "eat_crnl_nop c p =
     (if \<not> IS_TERMINATOR c \<and> \<not> is_blank c then start_record c (p\<lparr>p_state := START_RECORD\<rparr>)
      else p\<lparr>p_state := START_RECORD\<rparr>)"

definition tokenize_byte :: "parser \<Rightarrow> char \<Rightarrow> parser" where
  "tokenize_byte p c =
     (case p_state p of
        START_RECORD \<Rightarrow> start_record c p
      | WHITESPACE_LINE \<Rightarrow> whitespace_line c p
      | EAT_WHITESPACE \<Rightarrow> eat_whitespace c p
      | IN_FIELD \<Rightarrow> in_field c p
      | IN_QUOTED_FIELD \<Rightarrow> in_quoted_field c p
      | QUOTE_IN_QUOTED_FIELD \<Rightarrow> quote_in_quoted_field c p
      | EAT_CRNL \<Rightarrow> eat_crnl c p
      | EAT_CRNL_NOP \<Rightarrow> eat_crnl_nop c p)"

text \<open>At the end of the text an open field and an open line are closed.\<close>

definition parser_handle_eof :: "parser \<Rightarrow> exn + string list list" where
  "parser_handle_eof p =
     (case p_state p of
        START_RECORD \<Rightarrow> Inr (p_lines p)
      | WHITESPACE_LINE \<Rightarrow> Inr (p_lines p)
      | EAT_CRNL_NOP \<Rightarrow> Inr (p_lines p)
      | IN_QUOTED_FIELD \<Rightarrow> Inl ParserError
      | IN_FIELD \<Rightarrow> Inr (p_lines (END_LINE (END_FIELD p)))
      | QUOTE_IN_QUOTED_FIELD \<Rightarrow> Inr (p_lines (END_LINE (END_FIELD p)))
      | EAT_WHITESPACE \<Rightarrow> Inr (p_lines (END_LINE p))
      | EAT_CRNL \<Rightarrow> Inr (p_lines (END_LINE p)))"

definition tokenize :: "string \<Rightarrow> exn + string list list" where
  "tokenize text =
     parser_handle_eof
       (foldl tokenize_byte \<lparr>p_state = START_RECORD, p_field = [], p_line = [], p_lines = []\<rparr>
          text)"

definition column_names :: "string list" where
  "column_names = [''YYYY'', ''DDD'', ''X'', ''isWithinTolerance'', ''X(m)'', ''Y(m)'',
                   ''Z(m)'', ''sigmaX(m)'', ''sigmaY(m)'', ''sigmaZ(m)'']"

text \<open>
  A cell is the text of a field, or \<open>None\<close> for the missing value that \<open>pandas\<close> shows
  as \<open>NaN\<close>: where the line has no such field, and where the field is one of the strings
  that \<open>read_csv\<close> reads as missing by default.
\<close>

type_synonym cell = "string option"

definition STR_NA_VALUES :: "string list" where
  "STR_NA_VALUES = [''-1.#IND'', ''1.#QNAN'', ''1.#IND'', ''-1.#QNAN'', ''#N/A N/A'', ''#N/A'',
                    ''N/A'', ''n/a'', ''NA'', ''<NA>'', ''#NA'', ''NULL'', ''null'', ''NaN'',
                    ''-NaN'', ''nan'', ''-nan'', ''None'', []]"

definition cell_of_field :: "string \<Rightarrow> cell" where
  "cell_of_field f = (if f \<in> set STR_NA_VALUES then None else Some f)"

definition pad_row :: "nat \<Rightarrow> string list \<Rightarrow> cell list" where
  "pad_row w fs = map cell_of_field fs @ replicate (w - length fs) None"

text \<open>
  The table is as wide as the names, or as the first line when that is longer; the
  columns in excess of the names come first and become the index. A shorter line is
  filled with missing cells, a later line longer than the table raises \<open>ParserError\<close>.
\<close>

definition read_csv :: "string \<Rightarrow> exn + cell list list" where
  "read_csv text =
     (case tokenize text of
        Inl e \<Rightarrow> Inl e
      | Inr [] \<Rightarrow> Inr []
      | Inr (r0 # rest) \<Rightarrow>
          let width = max (length r0) (length column_names);
              leading = width - length column_names
          in if list_ex (\<lambda>r. length r > width) rest then Inl ParserError
             else Inr (map (\<lambda>r. drop leading (pad_row width r)) (r0 # rest)))"

text \<open>
  A column of integer fields becomes a column of integers. Any other content of the
  \<open>YYYY\<close> or \<open>DDD\<close> column (a missing cell, a decimal point, a letter) leaves a string
  after \<open>astype(str)\<close> that holds a character \<open>%Y%j\<close> cannot match, and the date
  conversion raises \<open>ValueError\<close>.
\<close>

definition int_of_field :: "string \<Rightarrow> int option" where
  "int_of_field s =
     (let (neg, ds) = (case s of c # r \<Rightarrow> if c = CHR ''-'' then (True, r)
                                          else if c = CHR ''+'' then (False, r)
                                          else (False, s)
                       | [] \<Rightarrow> (False, s))
      in if ds \<noteq> [] \<and> list_all is_digit ds
         then let v = int (foldl (\<lambda>a c. 10 * a + digit_val c) 0 ds)
              in Some (if neg then - v else v)
         else None)"

definition int_of_cell :: "cell \<Rightarrow> int option" where
  "int_of_cell c = (case c of None \<Rightarrow> None | Some s \<Rightarrow> int_of_field s)"

text \<open>
  \<open>pd.to_datetime(df['YYYY'].astype(str) + df['DDD'].astype(str), format='%Y%j')\<close>
  followed by \<open>.dt.strftime('%m/%d/%Y')\<close>, for one line.
\<close>

definition date_of_year_day :: "int \<Rightarrow> int \<Rightarrow> exn + string" where
  "date_of_year_day yyyy ddd =
     (case to_datetime_Yj (str_int yyyy @ str_int ddd) of
        Inl e \<Rightarrow> Inl e
      | Inr d \<Rightarrow> Inr (strftime_mdY d))"

definition row_date :: "cell list \<Rightarrow> exn + string" where
  "row_date cs =
     (case (int_of_cell (cs ! 0), int_of_cell (cs ! 1)) of
        (Some yyyy, Some ddd) \<Rightarrow> date_of_year_day yyyy ddd
      | _ \<Rightarrow> Inl ValueError)"

text \<open>
  A row of the frame \<open>read_txt_from_url\<close> returns. The numeric columns hold values
  of a type \<open>'v\<close> for Python's floats, which \<open>num\<close> reads from a cell.
\<close>

record dated =
  Date :: string

record 'v row = dated +
  X :: cell
  isWithinTolerance :: cell
  X_m :: 'v
  Y_m :: 'v
  Z_m :: 'v
  sigmaX_m :: 'v
  sigmaY_m :: 'v
  sigmaZ_m :: 'v

definition make_row :: "(cell \<Rightarrow> 'v) \<Rightarrow> string \<Rightarrow> cell list \<Rightarrow> 'v row" where
  "make_row num d cs =
     \<lparr>Date = d, X = cs ! 2, isWithinTolerance = cs ! 3,
      X_m = num (cs ! 4), Y_m = num (cs ! 5), Z_m = num (cs ! 6),
      sigmaX_m = num (cs ! 7), sigmaY_m = num (cs ! 8), sigmaZ_m = num (cs ! 9)\<rparr>"

text \<open>
  \<open>requests.get(url)\<close> either raises a \<open>RequestException\<close> or gives a response with a
  status code and a text; \<open>raise_for_status\<close> raises \<open>HTTPError\<close>, a
  \<open>RequestException\<close>, on a status from 400 to 599.
\<close>

datatype http = Failed | Response nat string

definition raise_for_status :: "nat \<Rightarrow> exn + unit" where
  "raise_for_status status = (if 400 \<le> status \<and> status < 600 then Inl RequestException
                              else Inr ())"

definition parse_text :: "(cell \<Rightarrow> 'v) \<Rightarrow> string \<Rightarrow> exn + 'v row list" where
  "parse_text num text =
     (case read_csv text of
        Inl e \<Rightarrow> Inl e
      | Inr css \<Rightarrow>
          (case sequence (map row_date css) of
             Inl e \<Rightarrow> Inl e
           | Inr ds \<Rightarrow> Inr (map (\<lambda>(d, cs). make_row num d cs) (zip ds css))))"

text \<open>
  \<open>read_txt_from_url\<close>: \<open>Inr None\<close> is the return value \<open>None\<close> of the \<open>except\<close>
  branch, which catches \<open>RequestException\<close> only; any other exception leaves the
  function. The message that \<open>st.error\<close> displays is not part of the model.
\<close>

definition read_txt_from_url :: "(string \<Rightarrow> http) \<Rightarrow> (cell \<Rightarrow> 'v) \<Rightarrow> string
                                   \<Rightarrow> exn + 'v row list option" where
  "read_txt_from_url get num url =
     (case get url of
        Failed \<Rightarrow> Inr None
      | Response status text \<Rightarrow>
          (case raise_for_status status of
             Inl e \<Rightarrow> (if e = RequestException then Inr None else Inl e)
           | Inr _ \<Rightarrow>
               (case parse_text num text of
                  Inl e \<Rightarrow> (if e = RequestException then Inr None else Inl e)
                | Inr df \<Rightarrow> Inr (Some df))))"

section \<open>Coordinate conversion\<close>

text \<open>
  \<open>convert_xyz_to_lat_lon_height(x, y, z)\<close>. Building the transformer from EPSG:4978
  to EPSG:4326 and calling it is the parameter \<open>transform\<close>: it returns longitude,
  latitude and height in this order (\<open>always_xy=True\<close>), or raises, as \<open>pyproj\<close> does
  with \<open>TypeError\<close> on a coordinate that is not a number.
\<close>

definition convert_xyz_to_lat_lon_height ::
    "('v \<Rightarrow> 'v \<Rightarrow> 'v \<Rightarrow> exn + 'v \<times> 'v \<times> 'v) \<Rightarrow> 'v \<Rightarrow> 'v \<Rightarrow> 'v \<Rightarrow> exn + 'v \<times> 'v \<times> 'v" where
  "convert_xyz_to_lat_lon_height transform x y z =
     (case transform x y z of
        Inl e \<Rightarrow> Inl e
      | Inr (lon, lat, height) \<Rightarrow> Inr (lat, lon, height))"

section \<open>Uncertainty conversion\<close>

text \<open>\<open>convert_uncertainties(sigma_x, sigma_y, sigma_z)\<close>.\<close>

definition convert_uncertainties :: "'a \<Rightarrow> 'b \<Rightarrow> 'c \<Rightarrow> 'a \<times> 'b \<times> 'c" where
  "convert_uncertainties sigma_x sigma_y sigma_z = (sigma_x, sigma_y, sigma_z)"

section \<open>The session and its handlers\<close>

text \<open>
  \<open>st.session_state\<close>: a key that was never set is \<open>None\<close>. The index labels of a
  frame are not modelled: no step of the script reads them.
\<close>

record 'v session_state =
  data :: "'v row list option"
  show_date_filter :: "bool option"
  filtered_data :: "'v row list option"

definition site_url :: "string \<Rightarrow> string" where
  "site_url selected_site =
     ''https://geodesy.noaa.gov/corsdata/spec_prod/opus/coord_14/'' @ selected_site"

text \<open>The body of \<open>if st.button('Fetch Data'):\<close>.\<close>

definition fetch_data :: "(string \<Rightarrow> http) \<Rightarrow> (cell \<Rightarrow> 'v) \<Rightarrow> string \<Rightarrow> 'v session_state
                            \<Rightarrow> exn + 'v session_state" where
  "fetch_data get num selected_site st =
     (if selected_site \<noteq> [] then
        (case read_txt_from_url get num (site_url selected_site) of
           Inl e \<Rightarrow> Inl e
         | Inr None \<Rightarrow> Inr (st\<lparr>show_date_filter := Some False\<rparr>)
         | Inr (Some df) \<Rightarrow> Inr (st\<lparr>data := Some df, show_date_filter := Some True\<rparr>))
      else Inr st)"

text \<open>\<open>Series.min()\<close> and \<open>Series.max()\<close> of a column of timestamps that is not empty.\<close>

definition series_min :: "date list \<Rightarrow> date" where
  "series_min ts =
     foldl (\<lambda>m t. if timestamp_value t < timestamp_value m then t else m) (hd ts) (tl ts)"

definition series_max :: "date list \<Rightarrow> date" where
  "series_max ts =
     foldl (\<lambda>m t. if timestamp_value m < timestamp_value t then t else m) (hd ts) (tl ts)"

text \<open>
  \<open>st.date_input(label, min_value, max_value, value)\<close>: the call raises when \<open>value\<close>
  is not between \<open>min_value\<close> and \<open>max_value\<close>. Otherwise the widget gives the date the
  user picked when that date is between the bounds, and \<open>value\<close> when nothing was
  picked or the picked date is outside them. \<open>st.selectbox(label, options, index)\<close>
  gives the option the user chose.
\<close>

definition date_input :: "date \<Rightarrow> date \<Rightarrow> date \<Rightarrow> date option \<Rightarrow> exn + date" where
  "date_input min_value max_value val picked =
     (if \<not> (date_le min_value val \<and> date_le val max_value) then Inl StreamlitAPIException
      else (case picked of
              None \<Rightarrow> Inr val
            | Some d \<Rightarrow> if date_le min_value d \<and> date_le d max_value then Inr d
                        else Inr val))"

definition selectbox :: "'a list \<Rightarrow> nat \<Rightarrow> nat option \<Rightarrow> exn + 'a" where
  "selectbox options index chosen =
     (let i = (case chosen of None \<Rightarrow> index | Some k \<Rightarrow> k)
      in if i < length options then Inr (options ! i) else Inl StreamlitAPIException)"

text \<open>\<open>DataFrame.head(n)\<close>: the first \<open>n\<close> rows, or all but the last \<open>-n\<close> for a negative \<open>n\<close>.\<close>

definition head :: "int \<Rightarrow> 'a list \<Rightarrow> 'a list" where
  "head n xs = (if 0 \<le> n then take (nat n) xs else take (length xs - nat (- n)) xs)"

text \<open>
  The two lines of the \<open>Show Data\<close> button: the boolean mask
  \<open>pd.to_datetime(data['Date']) >= pd.to_datetime(start_date)\<close> selects rows, and
  \<open>head(rows_to_show)\<close> cuts the selection.
\<close>

definition select_mask :: "'a list \<Rightarrow> bool list \<Rightarrow> 'a list" where
  "select_mask xs keep = map fst (filter snd (zip xs keep))"

definition show_data :: "('a::type) dated_scheme list \<Rightarrow> date \<Rightarrow> int
                           \<Rightarrow> exn + 'a dated_scheme list" where
  "show_data df start_date rows_to_show =
     (case sequence (map (\<lambda>r. to_datetime_mdY (Date r)) df) of
        Inl e \<Rightarrow> Inl e
      | Inr ts \<Rightarrow>
          (case to_timestamp (Inr start_date) of
             Inl e \<Rightarrow> Inl e
           | Inr s \<Rightarrow>
               let keep = map (\<lambda>t. timestamp_value s \<le> timestamp_value t) ts;
                   filtered = select_mask df keep
               in Inr (head rows_to_show filtered)))"

text \<open>
  The date filter section up to the \<open>Show Data\<close> button: the frame, the start date and
  the number of rows that the button's two lines are run with. An empty frame has no
  minimum date: the call of the widget raises \<open>ValueError\<close>, and the run ends there.
\<close>

definition filter_inputs :: "'v session_state \<Rightarrow> date option \<Rightarrow> nat option
                               \<Rightarrow> exn + ('v row list \<times> date \<times> int)" where
  "filter_inputs st picked chosen =
     (case data st of
        None \<Rightarrow> Inl AttributeError
      | Some df \<Rightarrow>
          (case sequence (map (\<lambda>r. to_datetime_mdY (Date r)) df) of
             Inl e \<Rightarrow> Inl e
           | Inr available_dates \<Rightarrow>
               if available_dates = [] then Inl ValueError
               else
                 let min_date = series_min available_dates;
                     max_date = series_max available_dates
                 in (case date_input min_date max_date min_date picked of
                       Inl e \<Rightarrow> Inl e
                     | Inr start_date \<Rightarrow>
                         (case selectbox [10, 50, 100] 0 chosen of
                            Inl e \<Rightarrow> Inl e
                          | Inr rows_to_show \<Rightarrow> Inr (df, start_date, rows_to_show)))))"

definition date_filter :: "'v session_state \<Rightarrow> date option \<Rightarrow> nat option \<Rightarrow> bool
                             \<Rightarrow> exn + 'v session_state" where
  "date_filter st picked chosen show_clicked =
     (if show_date_filter st = Some True then
        (case filter_inputs st picked chosen of
           Inl e \<Rightarrow> Inl e
         | Inr (df, start_date, rows_to_show) \<Rightarrow>
             if show_clicked then
               (case show_data df start_date rows_to_show of
                  Inl e \<Rightarrow> Inl e
                | Inr filtered \<Rightarrow> Inr (st\<lparr>filtered_data := Some filtered\<rparr>))
             else Inr st)
      else Inr st)"

text \<open>
  The \<open>Convert\<close> button: the loop over the rows appends to six lists, and the frame is
  built from the \<open>Date\<close> column and the lists, which must all have its length. An
  exception in the loop ends the run before any frame is built.
\<close>

record 'v converted = dated +
  Latitude :: 'v
  Longitude :: 'v
  Height_m :: 'v
  Sigma_Latitude_m :: 'v
  Sigma_Longitude_m :: 'v
  Sigma_Height_m :: 'v

type_synonym 'v columns = "'v list \<times> 'v list \<times> 'v list \<times> 'v list \<times> 'v list \<times> 'v list"

fun convert_loop :: "('v \<Rightarrow> 'v \<Rightarrow> 'v \<Rightarrow> exn + 'v \<times> 'v \<times> 'v) \<Rightarrow> 'v row list \<Rightarrow> 'v columns
                       \<Rightarrow> exn + 'v columns" where
  "convert_loop transform [] acc = Inr acc"
| "convert_loop transform (r # rs)
       (latitudes, longitudes, heights, sigma_latitudes, sigma_longitudes, sigma_heights) =
     (case convert_xyz_to_lat_lon_height transform (X_m r) (Y_m r) (Z_m r) of
        Inl e \<Rightarrow> Inl e
      | Inr (lat, lon, height) \<Rightarrow>
          let (sigma_lat, sigma_lon, sigma_height) =
                convert_uncertainties (sigmaX_m r) (sigmaY_m r) (sigmaZ_m r)
          in convert_loop transform rs
               (latitudes @ [lat], longitudes @ [lon], heights @ [height],
                sigma_latitudes @ [sigma_lat], sigma_longitudes @ [sigma_lon],
                sigma_heights @ [sigma_height]))"

definition DataFrame :: "string list \<Rightarrow> 'v columns \<Rightarrow> exn + 'v converted list" where
  "DataFrame dates cols =
     (case cols of (lats, lons, hs, slats, slons, shs) \<Rightarrow>
        if length lats = length dates \<and> length lons = length dates \<and> length hs = length dates
           \<and> length slats = length dates \<and> length slons = length dates
           \<and> length shs = length dates
        then Inr (map (\<lambda>i. \<lparr>Date = dates ! i, Latitude = lats ! i, Longitude = lons ! i,
                             Height_m = hs ! i, Sigma_Latitude_m = slats ! i,
                             Sigma_Longitude_m = slons ! i, Sigma_Height_m = shs ! i\<rparr>)
                      [0 ..< length dates])
        else Inl ValueError)"

definition convert :: "('v \<Rightarrow> 'v \<Rightarrow> 'v \<Rightarrow> exn + 'v \<times> 'v \<times> 'v) \<Rightarrow> 'v row list
                         \<Rightarrow> exn + 'v converted list" where
  "convert transform df =
     (case convert_loop transform df ([], [], [], [], [], []) of
        Inl e \<Rightarrow> Inl e
      | Inr cols \<Rightarrow> DataFrame (map Date df) cols)"

text \<open>
  The section of the \<open>Convert\<close> button gives the frame it displays, or \<open>None\<close> when the
  button is not offered or not clicked.
\<close>

definition convert_section :: "('v \<Rightarrow> 'v \<Rightarrow> 'v \<Rightarrow> exn + 'v \<times> 'v \<times> 'v) \<Rightarrow> 'v session_state \<Rightarrow> bool
                                 \<Rightarrow> exn + 'v converted list option" where
  "convert_section transform st convert_clicked =
     (case filtered_data st of
        None \<Rightarrow> Inr None
      | Some df \<Rightarrow>
          if convert_clicked then
            (case convert transform df of Inl e \<Rightarrow> Inl e | Inr c \<Rightarrow> Inr (Some c))
          else Inr None)"

section \<open>Reference definitions\<close>

text \<open>
  The selection as the specification words it: the records whose date is not before the
  start date, in their original order, cut to the first \<open>limit\<close> of them. The date of
  a record is given by \<open>date_of\<close>.
\<close>

definition select_spec :: "('r \<Rightarrow> date) \<Rightarrow> 'r list \<Rightarrow> date \<Rightarrow> nat \<Rightarrow> 'r list" where
  "select_spec date_of records startDate limit =
     take limit (filter (\<lambda>r. date_le startDate (date_of r)) records)"

text \<open>The converted record of a row whose coordinates became \<open>lat\<close>, \<open>lon\<close>, \<open>height\<close>.\<close>

definition convert_row :: "'v row \<Rightarrow> 'v \<times> 'v \<times> 'v \<Rightarrow> 'v converted" where
  "convert_row r llh =
     (case llh of (lat, lon, height) \<Rightarrow>
        \<lparr>Date = Date r, Latitude = lat, Longitude = lon, Height_m = height,
         Sigma_Latitude_m = sigmaX_m r, Sigma_Longitude_m = sigmaY_m r,
         Sigma_Height_m = sigmaZ_m r\<rparr>)"

text \<open>The length of a year, and the ordinal day of a date within its year.\<close>

definition days_in_year :: "int \<Rightarrow> int" where
  "days_in_year y = (if is_leap y then 366 else 365)"

definition day_of_year :: "date \<Rightarrow> int" where
  "day_of_year d = days_before_month (year d) (month d) + day d"

text \<open>
  Python's \<open><=\<close> on two strings: the lexicographic order of their characters. The
  script never compares date strings; this is the comparison it avoids.
\<close>

fun str_le :: "string \<Rightarrow> string \<Rightarrow> bool" where
  "str_le [] t = True"
| "str_le (a # s) [] = False"
| "str_le (a # s) (b # t) = ((of_char a :: nat) < of_char b \<or> (a = b \<and> str_le s t))"

text \<open>
  The last step of \<open>_ord2ymd\<close> on its own: the month and the day of the month from
  the offset of a day within its year.
\<close>

definition month_day :: "int \<Rightarrow> bool \<Rightarrow> int \<times> int" where
  "month_day n leapyear =
     (let mth = (n + 50) div 32;
          preceding = DAYS_BEFORE_MONTH mth + (if mth > 2 \<and> leapyear then 1 else 0);
          (mth, preceding) =
             (if preceding > n
              then (mth - 1,
                    preceding - (DAYS_IN_MONTH (mth - 1)
                                 + (if mth - 1 = 2 \<and> leapyear then 1 else 0)))
              else (mth, preceding))
      in (mth, n - preceding + 1))"

section \<open>Decimal strings and date strings\<close>

lemma digit_cases:
  "n < 10 \<Longrightarrow> n = 0 \<or> n = 1 \<or> n = 2 \<or> n = 3 \<or> n = 4 \<or> n = 5 \<or> n = 6 \<or> n = 7 \<or> n = 8 \<or> n = (9::nat)"
  by arith

lemma is_digit_digit_char [simp]: "n < 10 \<Longrightarrow> is_digit (digit_char n)"
  by (drule digit_cases) (auto simp: is_digit_def digit_char_def)

lemma digit_val_digit_char [simp]: "n < 10 \<Longrightarrow> digit_val (digit_char n) = n"
  by (drule digit_cases) (auto simp: digit_val_def digit_char_def)

lemma in_range_digit_char [simp]:
  "n < 10 \<Longrightarrow> in_range lo hi (digit_char n) = (lo \<le> n \<and> n \<le> hi)"
  by (simp add: in_range_def)

lemma digit_char_not_slash [simp]: "n < 10 \<Longrightarrow> digit_char n \<noteq> CHR ''/''"
  by (drule digit_cases) (auto simp: digit_char_def)

lemma str_nat_1: "n < 10 \<Longrightarrow> str_nat n = [digit_char n]"
  by (simp add: str_nat.simps)

lemma str_nat_2: "10 \<le> n \<Longrightarrow> n < 100 \<Longrightarrow> str_nat n = [digit_char (n div 10), digit_char (n mod 10)]"
  by (subst str_nat.simps) (simp add: str_nat_1)

lemma str_nat_3: "100 \<le> n \<Longrightarrow> n < 1000 \<Longrightarrow>
  str_nat n = [digit_char (n div 10 div 10), digit_char (n div 10 mod 10), digit_char (n mod 10)]"
  by (subst str_nat.simps) (simp add: str_nat_2)

lemma str_nat_4: "1000 \<le> n \<Longrightarrow> n < 10000 \<Longrightarrow>
  str_nat n = [digit_char (n div 10 div 10 div 10), digit_char (n div 10 div 10 mod 10),
               digit_char (n div 10 mod 10), digit_char (n mod 10)]"
  by (subst str_nat.simps) (simp add: str_nat_3)

lemma pad2_digits: "n < 100 \<Longrightarrow> pad2 n = [digit_char (n div 10), digit_char (n mod 10)]"
  by (cases "n < 10") (simp_all add: pad2_def str_nat_1 str_nat_2 digit_char_def)

lemma digits_value: "foldl (\<lambda>a c. 10 * a + digit_val c) 0 (str_nat n) = n"
proof (induction n rule: str_nat.induct)
  case (1 n)
  show ?case
  proof (cases "n < 10")
    case True
    then show ?thesis by (simp add: str_nat_1)
  next
    case False
    with 1 show ?thesis by (subst str_nat.simps) simp
  qed
qed

lemma match_Y_str_nat:
  assumes "1000 \<le> n" "n < 10000"
  shows "match_Y (str_nat n @ r) = Some (n, r)"
proof -
  define a where "a = n div 10 div 10 div 10"
  define b where "b = n div 10 div 10 mod 10"
  define c where "c = n div 10 mod 10"
  define d where "d = n mod 10"
  have lt: "a < 10" "b < 10" "c < 10" "d < 10"
    using assms by (simp_all add: a_def b_def c_def d_def)
  have s: "str_nat n = [digit_char a, digit_char b, digit_char c, digit_char d]"
    using assms by (simp add: str_nat_4 a_def b_def c_def d_def)
  have "foldl (\<lambda>a c. 10 * a + digit_val c) 0 (str_nat n) = n"
    by (rule digits_value)
  then have "1000 * a + 100 * b + 10 * c + d = n"
    using lt by (simp add: s)
  then show ?thesis using lt by (simp add: s match_Y_def)
qed


lemma match_m_pad2:
  assumes "1 \<le> m" "m \<le> 12"
  shows "match_m (pad2 m @ CHR ''/'' # r) = Some (m, CHR ''/'' # r)"
proof -
  have lt: "m div 10 < 10" "m mod 10 < 10" using assms by simp_all
  show ?thesis
  proof (cases "m < 10")
    case True
    then show ?thesis using assms lt
      by (simp add: pad2_digits match_m_def m2_def m1_def orelse_def)
  next
    case False
    then have "m div 10 = 1" "m mod 10 \<le> 2" "10 + m mod 10 = m" using assms by arith+
    then show ?thesis using lt
      by (simp add: pad2_digits match_m_def m2_def m1_def orelse_def)
  qed
qed

lemma match_d_pad2:
  assumes "1 \<le> d" "d \<le> 31"
  shows "match_d (pad2 d @ CHR ''/'' # r) = Some (d, CHR ''/'' # r)"
proof -
  have lt: "d div 10 < 10" "d mod 10 < 10" using assms by simp_all
  consider "d < 10" | "10 \<le> d" "d < 30" | "30 \<le> d" by linarith
  then show ?thesis
  proof cases
    case 1
    then show ?thesis using assms lt
      by (simp add: pad2_digits match_d_def m2_def m1_def orelse_def)
  next
    case 2
    then have "1 \<le> d div 10" "d div 10 \<le> 2" "d div 10 \<noteq> 3" "10 * (d div 10) + d mod 10 = d"
      by arith+
    then show ?thesis using lt
      by (simp add: pad2_digits match_d_def m2_def m1_def orelse_def)
  next
    case 3
    then have "d div 10 = 3" "d mod 10 \<le> 1" "30 + d mod 10 = d" using assms by arith+
    then show ?thesis using lt
      by (simp add: pad2_digits match_d_def m2_def m1_def orelse_def)
  qed
qed

lemma days_in_month_le: "days_in_month y m \<le> 31"
  by (simp add: days_in_month_def DAYS_IN_MONTH_def)

lemma strptime_strftime:
  assumes "valid_date d" "1000 \<le> year d"
  shows "strptime_mdY (strftime_mdY d) = Inr d"
proof -
  define y where "y = nat (year d)"
  define m where "m = nat (month d)"
  define dd where "dd = nat (day d)"
  have b: "1000 \<le> y" "y < 10000" "1 \<le> m" "m \<le> 12" "1 \<le> dd" "dd \<le> 31"
    using assms days_in_month_le [of "year d" "month d"]
    by (auto simp: valid_date_def y_def m_def dd_def)
  have i: "int y = year d" "int m = month d" "int dd = day d"
    using assms by (auto simp: valid_date_def y_def m_def dd_def)
  have s: "strftime_mdY d = pad2 m @ CHR ''/'' # pad2 dd @ CHR ''/'' # str_nat y"
    using assms by (simp add: strftime_mdY_def str_int_def y_def m_def dd_def)
  have Y: "match_Y (str_nat y) = Some (y, [])"
    using match_Y_str_nat [OF b(1,2), of "[]"] by simp
  have "mk_date (year d) (month d) (day d) = d" by (simp add: mk_date_def)
  then show ?thesis
    using assms(1)
    by (simp add: strptime_mdY_def s match_m_pad2 [OF b(3,4)] match_d_pad2 [OF b(5,6)]
        match_slash_def Y i)
qed

section \<open>Ordinals and the order of the calendar\<close>

lemma div_step:
  fixes y k :: int
  assumes "0 < k"
  shows "y div k - (y - 1) div k = (if y mod k = 0 then 1 else 0)"
proof (cases "y mod k = 0")
  case True
  have "y - 1 = k * (y div k - 1) + (k - 1)"
    using True mult_div_mod_eq [of k y] by (simp add: algebra_simps)
  then have "(y - 1) div k = y div k - 1"
    by (rule int_div_pos_eq) (use assms in simp_all)
  with True show ?thesis by simp
next
  case False
  have r: "0 \<le> y mod k" "y mod k < k" using assms by simp_all
  have "y - 1 = k * (y div k) + (y mod k - 1)"
    using mult_div_mod_eq [of k y] by simp
  then have "(y - 1) div k = y div k"
    by (rule int_div_pos_eq) (use r False in simp_all)
  with False show ?thesis by simp
qed


lemma mod_100_4: "(y::int) mod 100 = 0 \<Longrightarrow> y mod 4 = 0"
proof -
  assume "y mod 100 = 0"
  then have "100 dvd y" by (simp add: dvd_eq_mod_eq_0)
  moreover have "(4::int) dvd 100" by simp
  ultimately have "4 dvd y" by (rule dvd_trans [rotated])
  then show ?thesis by (simp add: dvd_eq_mod_eq_0)
qed

lemma mod_400_100: "(y::int) mod 400 = 0 \<Longrightarrow> y mod 100 = 0"
proof -
  assume "y mod 400 = 0"
  then have "400 dvd y" by (simp add: dvd_eq_mod_eq_0)
  moreover have "(100::int) dvd 400" by simp
  ultimately have "100 dvd y" by (rule dvd_trans [rotated])
  then show ?thesis by (simp add: dvd_eq_mod_eq_0)
qed

lemma days_before_year_next: "days_before_year (y + 1) = days_before_year y + days_in_year y"
proof -
  define c4 :: int where "c4 = (if y mod 4 = 0 then 1 else 0)"
  define c100 :: int where "c100 = (if y mod 100 = 0 then 1 else 0)"
  define c400 :: int where "c400 = (if y mod 400 = 0 then 1 else 0)"
  define a4 a100 a400 where "a4 = y div 4" and "a100 = y div 100" and "a400 = y div 400"
  define b4 b100 b400 where "b4 = (y - 1) div 4" and "b100 = (y - 1) div 100"
    and "b400 = (y - 1) div 400"
  have "a4 - b4 = c4" unfolding a4_def b4_def c4_def by (rule div_step) simp
  moreover have "a100 - b100 = c100" unfolding a100_def b100_def c100_def by (rule div_step) simp
  moreover have "a400 - b400 = c400" unfolding a400_def b400_def c400_def by (rule div_step) simp
  ultimately have d: "a4 = b4 + c4" "a100 = b100 + c100" "a400 = b400 + c400"
    by simp_all
  have "days_in_year y = 365 + c4 - c100 + c400"
    using mod_100_4 [of y] mod_400_100 [of y]
    unfolding days_in_year_def is_leap_def c4_def c100_def c400_def
    by (cases "y mod 4 = 0"; cases "y mod 100 = 0"; cases "y mod 400 = 0") simp_all
  moreover have "days_before_year (y + 1) = y * 365 + a4 - a100 + a400"
    by (simp add: days_before_year_def Let_def a4_def a100_def a400_def)
  moreover have "days_before_year y = (y - 1) * 365 + b4 - b100 + b400"
    by (simp add: days_before_year_def Let_def b4_def b100_def b400_def)
  ultimately show ?thesis using d by (simp add: algebra_simps)
qed

lemma days_before_year_mono: "y1 \<le> y2 \<Longrightarrow> days_before_year y1 \<le> days_before_year y2"
proof (induction y2 rule: int_ge_induct)
  case base
  show ?case by simp
next
  case (step i)
  then show ?case by (simp add: days_before_year_next days_in_year_def)
qed

lemma month_cases:
  "1 \<le> m \<Longrightarrow> m \<le> 12 \<Longrightarrow>
   m = 1 \<or> m = 2 \<or> m = 3 \<or> m = 4 \<or> m = 5 \<or> m = 6 \<or> m = 7 \<or> m = 8 \<or> m = 9
   \<or> m = 10 \<or> m = 11 \<or> m = (12::int)"
  by arith


lemma day_of_year_bounds:
  assumes "valid_date d"
  shows "1 \<le> day_of_year d" "day_of_year d \<le> days_in_year (year d)"
proof -
  have m: "1 \<le> month d" "month d \<le> 12" using assms by (simp_all add: valid_date_def)
  show "1 \<le> day_of_year d"
    using assms month_cases [OF m]
    by (auto simp: valid_date_def day_of_year_def days_before_month_def DAYS_BEFORE_MONTH_def)
  show "day_of_year d \<le> days_in_year (year d)"
    using assms month_cases [OF m]
    by (auto simp: valid_date_def day_of_year_def days_before_month_def DAYS_BEFORE_MONTH_def
        days_in_month_def DAYS_IN_MONTH_def days_in_year_def)
qed

lemma days_before_month_next:
  assumes "1 \<le> m" "m < 12"
  shows "days_before_month y (m + 1) = days_before_month y m + days_in_month y m"
proof -
  have "m \<le> 12" using assms by simp
  from month_cases [OF assms(1) this] assms(2) show ?thesis
    by (auto simp: days_before_month_def DAYS_BEFORE_MONTH_def days_in_month_def DAYS_IN_MONTH_def)
qed
lemma days_before_month_mono:
  assumes "1 \<le> ma" "ma \<le> mb" "mb \<le> 12"
  shows "days_before_month y ma \<le> days_before_month y mb"
  using assms(2,1,3)
proof (induction mb rule: int_ge_induct)
  case base
  show ?case by simp
next
  case (step i)
  have "1 \<le> i" "i < 12" using step by simp_all
  moreover from this have "0 \<le> days_in_month y i"
    by (simp add: days_in_month_def DAYS_IN_MONTH_def)
  ultimately show ?case using step by (simp add: days_before_month_next)
qed

lemma toordinal_eq: "toordinal d = days_before_year (year d) + day_of_year d"
  by (simp add: toordinal_def ymd2ord_def day_of_year_def)

lemma day_of_year_le_iff:
  assumes "valid_date a" "valid_date b" "year a = year b"
  shows "(day_of_year a \<le> day_of_year b)
         = (month a < month b \<or> (month a = month b \<and> day a \<le> day b))"
proof -
  have va: "1 \<le> month a" "month a \<le> 12" "1 \<le> day a" "day a \<le> days_in_month (year a) (month a)"
    using assms(1) by (simp_all add: valid_date_def)
  have vb: "1 \<le> month b" "month b \<le> 12" "1 \<le> day b" "day b \<le> days_in_month (year b) (month b)"
    using assms(2) by (simp_all add: valid_date_def)
  consider "month a < month b" | "month a = month b" | "month b < month a" by linarith
  then show ?thesis
  proof cases
    case 1
    then have "days_before_month (year a) (month a + 1) \<le> days_before_month (year a) (month b)"
      using va vb by (intro days_before_month_mono) simp_all
    then have "day_of_year a \<le> days_before_month (year a) (month b)"
      using 1 va vb by (simp add: days_before_month_next day_of_year_def)
    then show ?thesis using 1 vb assms(3) by (simp add: day_of_year_def)
  next
    case 2
    then show ?thesis using assms(3) by (simp add: day_of_year_def)
  next
    case 3
    then have "days_before_month (year b) (month b + 1) \<le> days_before_month (year b) (month a)"
      using va vb by (intro days_before_month_mono) simp_all
    then have "day_of_year b \<le> days_before_month (year b) (month a)"
      using 3 va vb by (simp add: days_before_month_next day_of_year_def)
    then show ?thesis using 3 va assms(3) by (simp add: day_of_year_def)
  qed
qed

lemma toordinal_le_iff:
  assumes "valid_date a" "valid_date b"
  shows "(toordinal a \<le> toordinal b) = date_le a b"
proof -
  consider "year a < year b" | "year a = year b" | "year b < year a" by linarith
  then show ?thesis
  proof cases
    case 1
    then have "days_before_year (year a + 1) \<le> days_before_year (year b)"
      by (intro days_before_year_mono) simp
    then have "toordinal a \<le> days_before_year (year b)"
      using day_of_year_bounds(2) [OF assms(1)]
      by (simp add: days_before_year_next toordinal_eq)
    then show ?thesis
      using 1 day_of_year_bounds(1) [OF assms(2)] by (simp add: toordinal_eq date_le_def)
  next
    case 2
    then show ?thesis
      using day_of_year_le_iff [OF assms 2] by (simp add: toordinal_eq date_le_def)
  next
    case 3
    then have "days_before_year (year b + 1) \<le> days_before_year (year a)"
      by (intro days_before_year_mono) simp
    then have "toordinal b \<le> days_before_year (year a)"
      using day_of_year_bounds(2) [OF assms(2)]
      by (simp add: days_before_year_next toordinal_eq)
    then show ?thesis
      using 3 day_of_year_bounds(1) [OF assms(1)] by (simp add: toordinal_eq date_le_def)
  qed
qed

lemma timestamp_le_iff:
  assumes "valid_date a" "valid_date b"
  shows "(timestamp_value a \<le> timestamp_value b) = date_le a b"
  using toordinal_le_iff [OF assms] by (simp add: timestamp_value_def)

section \<open>The conversion step\<close>

text \<open>
  C1: for every triple of uncertainties, \<open>convert_uncertainties\<close> returns the triple
  unchanged: the latitude, longitude and height uncertainties are the X, Y and Z
  uncertainties.
\<close>

theorem convert_uncertainties_identity:
  "convert_uncertainties sigma_x sigma_y sigma_z = (sigma_x, sigma_y, sigma_z)"
  by (simp add: convert_uncertainties_def)

lemma convert_loop_ok:
  assumes "\<forall>r\<in>set rs. convert_xyz_to_lat_lon_height transform (X_m r) (Y_m r) (Z_m r) = Inr (g r)"
  shows "convert_loop transform rs (a, b, c, d, e, f) =
           Inr (a @ map (\<lambda>r. fst (g r)) rs, b @ map (\<lambda>r. fst (snd (g r))) rs,
                c @ map (\<lambda>r. snd (snd (g r))) rs,
                d @ map sigmaX_m rs, e @ map sigmaY_m rs, f @ map sigmaZ_m rs)"
  using assms
  by (induction rs arbitrary: a b c d e f)
     (simp_all add: convert_uncertainties_def split: prod.splits)

lemma convert_loop_Inr:
  "convert_loop transform rs (a, b, c, d, e, f) = Inr cols \<Longrightarrow>
   \<forall>r\<in>set rs. \<exists>v. convert_xyz_to_lat_lon_height transform (X_m r) (Y_m r) (Z_m r) = Inr v"
  by (induction rs arbitrary: a b c d e f)
     (auto simp: convert_uncertainties_def split: sum.splits prod.splits)

lemma convert_ok:
  assumes "\<forall>r\<in>set df. convert_xyz_to_lat_lon_height transform (X_m r) (Y_m r) (Z_m r) = Inr (g r)"
  shows "convert transform df = Inr (map (\<lambda>r. convert_row r (g r)) df)"
proof -
  have "map (\<lambda>r. convert_row r (g r)) df
        = map (\<lambda>i. convert_row (df ! i) (g (df ! i))) [0 ..< length df]"
    by (rule nth_equalityI) simp_all
  then show ?thesis
    by (simp add: convert_def convert_loop_ok [OF assms] DataFrame_def convert_row_def
                  split: prod.splits)
qed

lemma convert_Inr:
  assumes "convert transform df = Inr out"
  shows "out = map (\<lambda>r. convert_row r
                 (projr (convert_xyz_to_lat_lon_height transform (X_m r) (Y_m r) (Z_m r)))) df"
proof -
  from assms obtain cols where
    "convert_loop transform df ([], [], [], [], [], []) = Inr cols"
    by (auto simp: convert_def split: sum.splits)
  then have "\<forall>r\<in>set df. \<exists>v. convert_xyz_to_lat_lon_height transform (X_m r) (Y_m r) (Z_m r) = Inr v"
    by (rule convert_loop_Inr)
  then have "\<forall>r\<in>set df. convert_xyz_to_lat_lon_height transform (X_m r) (Y_m r) (Z_m r)
               = Inr (projr (convert_xyz_to_lat_lon_height transform (X_m r) (Y_m r) (Z_m r)))"
    by auto
  from convert_ok [OF this] assms show ?thesis by simp
qed

text \<open>An exception of the transformer on a row ends the conversion with that exception.\<close>

lemma convert_loop_raises:
  assumes "\<forall>r\<in>set before. \<exists>v. transform (X_m r) (Y_m r) (Z_m r) = Inr v"
    and "transform (X_m r) (Y_m r) (Z_m r) = Inl e"
  shows "convert_loop transform (before @ r # rs) (a, b, c, d, e', f) = Inl e"
  using assms
  by (induction before arbitrary: a b c d e' f)
     (auto simp: convert_xyz_to_lat_lon_height_def convert_uncertainties_def
           split: sum.splits prod.splits)

lemma convert_raises:
  assumes "\<forall>r\<in>set before. \<exists>v. transform (X_m r) (Y_m r) (Z_m r) = Inr v"
    and "transform (X_m r) (Y_m r) (Z_m r) = Inl e"
  shows "convert transform (before @ r # rs) = Inl e"
  using convert_loop_raises [OF assms] by (simp add: convert_def)

text \<open>
  C6: a frame that the conversion builds has one record for each row of the filtered
  frame, and the dates of the records are the dates of the rows, in order. The
  conversion builds its frame whenever the transformer accepts the coordinates of every
  row; the constructor of the frame never raises.
\<close>

theorem convert_one_per_row:
  "(convert transform df = Inr out \<longrightarrow> length out = length df \<and> map Date out = map Date df)
   \<and> ((\<forall>r\<in>set df. \<exists>v. transform (X_m r) (Y_m r) (Z_m r) = Inr v)
        \<longrightarrow> (\<exists>out. convert transform df = Inr out \<and> length out = length df
                   \<and> map Date out = map Date df))"
proof (rule conjI; rule impI)
  assume "convert transform df = Inr out"
  from convert_Inr [OF this]
  show "length out = length df \<and> map Date out = map Date df"
    by (simp add: convert_row_def comp_def split: prod.splits)
next
  assume "\<forall>r\<in>set df. \<exists>v. transform (X_m r) (Y_m r) (Z_m r) = Inr v"
  then have "\<forall>r\<in>set df. convert_xyz_to_lat_lon_height transform (X_m r) (Y_m r) (Z_m r)
               = Inr (projr (convert_xyz_to_lat_lon_height transform (X_m r) (Y_m r) (Z_m r)))"
    by (auto simp: convert_xyz_to_lat_lon_height_def split: prod.splits)
  from convert_ok [OF this]
  show "\<exists>out. convert transform df = Inr out \<and> length out = length df
              \<and> map Date out = map Date df"
    by (simp add: convert_row_def comp_def split: prod.splits)
qed

theorem convert_one_per_row_witness:
  "\<exists>out. convert (\<lambda>x y z. Inr (y, x, z))
            [make_row (\<lambda>c. c) ''01/03/2024'' (replicate 10 None),
             make_row (\<lambda>c. c) ''01/01/2024'' (replicate 10 None)] = Inr out
         \<and> length out = 2 \<and> map Date out = [''01/03/2024'', ''01/01/2024'']"
  using convert_one_per_row [of "\<lambda>x y z. Inr (y, x, z)"
      "[make_row (\<lambda>c. c) ''01/03/2024'' (replicate 10 None),
        make_row (\<lambda>c. c) ''01/01/2024'' (replicate 10 None)]", THEN conjunct2]
  by (auto simp: make_row_def numeral_2_eq_2)

section \<open>The date filter\<close>

lemma sequence_map_Inr:
  "(\<forall>x\<in>set xs. f x = Inr (g x)) \<Longrightarrow> sequence (map f xs) = Inr (map g xs)"
  by (induction xs) simp_all

lemma sequence_Inr_all2:
  "sequence fs = Inr ys \<Longrightarrow> list_all2 (\<lambda>f y. f = Inr y) fs ys"
  by (induction fs arbitrary: ys) (auto split: sum.splits)

lemma sequence_map_Inr_conv:
  assumes "sequence (map f xs) = Inr ys"
  shows "length ys = length xs" and "\<And>i. i < length xs \<Longrightarrow> f (xs ! i) = Inr (ys ! i)"
proof -
  have a: "list_all2 (\<lambda>f y. f = Inr y) (map f xs) ys"
    using assms by (rule sequence_Inr_all2)
  then show "length ys = length xs" by (simp add: list_all2_conv_all_nth)
  fix i assume "i < length xs"
  with a show "f (xs ! i) = Inr (ys ! i)" by (simp add: list_all2_conv_all_nth)
qed

lemma to_timestamp_Inr: "to_timestamp r = Inr d \<Longrightarrow> r = Inr d \<and> in_bounds d"
  by (auto simp: to_timestamp_def split: sum.splits if_splits)

lemma strptime_mdY_valid: "strptime_mdY s = Inr d \<Longrightarrow> valid_date d"
  by (auto simp: strptime_mdY_def split: option.splits if_splits)

lemma to_datetime_mdY_valid:
  "to_datetime_mdY s = Inr d \<Longrightarrow> valid_date d \<and> in_bounds d"
  by (auto simp: to_datetime_mdY_def dest!: to_timestamp_Inr strptime_mdY_valid)

lemma select_mask_map: "select_mask xs (map p xs) = filter p xs"
  by (induction xs) (simp_all add: select_mask_def)

lemma show_data_filter:
  assumes "\<forall>r\<in>set df. to_datetime_mdY (Date r) = Inr (date_of r)"
    and "valid_date start_date" and "in_bounds start_date"
  shows "show_data df start_date n
         = Inr (head n (filter (\<lambda>r. date_le start_date (date_of r)) df))"
proof -
  have s: "sequence (map (\<lambda>r. to_datetime_mdY (Date r)) df) = Inr (map date_of df)"
    using assms(1) by (rule sequence_map_Inr)
  have v: "valid_date (date_of r)" if "r \<in> set df" for r
    using assms(1) that to_datetime_mdY_valid by blast
  have m: "map (\<lambda>t. timestamp_value start_date \<le> timestamp_value t) (map date_of df)
        = map (\<lambda>r. date_le start_date (date_of r)) df"
    by (simp add: timestamp_le_iff [OF assms(2)] v)
  have "show_data df start_date n
        = Inr (head n (select_mask df
            (map (\<lambda>t. timestamp_value start_date \<le> timestamp_value t) (map date_of df))))"
    using assms(3) by (simp add: show_data_def s to_timestamp_def del: map_map)
  also have "\<dots> = Inr (head n (select_mask df (map (\<lambda>r. date_le start_date (date_of r)) df)))"
    by (simp only: m)
  finally show ?thesis by (simp only: select_mask_map)
qed


lemma head_positive: "0 < n \<Longrightarrow> head n xs = take (nat n) xs"
  by (simp add: head_def)

lemma head_Nil: "head n [] = []"
  by (simp add: head_def)

lemma in_bounds_year:
  assumes "valid_date d" "in_bounds d"
  shows "1677 \<le> year d" "year d \<le> 2262"
proof -
  have lo: "valid_date (mk_date 1677 9 22)" and hi: "valid_date (mk_date 2262 4 11)"
    by (simp_all add: valid_date_def mk_date_def days_in_month_def DAYS_IN_MONTH_def)
  have "toordinal (mk_date 1677 9 22) \<le> toordinal d" "toordinal d \<le> toordinal (mk_date 2262 4 11)"
    using assms(2) by (simp_all add: in_bounds_def toordinal_def mk_date_def)
  then have "date_le (mk_date 1677 9 22) d" "date_le d (mk_date 2262 4 11)"
    using toordinal_le_iff [OF lo assms(1)] toordinal_le_iff [OF assms(1) hi] by simp_all
  then show "1677 \<le> year d" "year d \<le> 2262"
    by (auto simp: date_le_def mk_date_def)
qed

lemma to_datetime_strftime:
  assumes "valid_date d" "in_bounds d"
  shows "to_datetime_mdY (strftime_mdY d) = Inr d"
  using in_bounds_year(1) [OF assms] assms
  by (simp add: to_datetime_mdY_def strptime_strftime to_timestamp_def)

lemma fold_min:
  "foldl (\<lambda>m t. if timestamp_value t < timestamp_value m then t else m) m0 ts \<in> insert m0 (set ts)
   \<and> (\<forall>t \<in> insert m0 (set ts).
         timestamp_value (foldl (\<lambda>m t. if timestamp_value t < timestamp_value m then t else m) m0 ts)
         \<le> timestamp_value t)"
proof (induction ts arbitrary: m0)
  case Nil
  show ?case by simp
next
  case (Cons a ts)
  show ?case
    using Cons [of "if timestamp_value a < timestamp_value m0 then a else m0"]
    by (auto split: if_splits)
qed

lemma fold_max:
  "foldl (\<lambda>m t. if timestamp_value m < timestamp_value t then t else m) m0 ts \<in> insert m0 (set ts)
   \<and> (\<forall>t \<in> insert m0 (set ts).
         timestamp_value t
         \<le> timestamp_value (foldl (\<lambda>m t. if timestamp_value m < timestamp_value t then t else m) m0 ts))"
proof (induction ts arbitrary: m0)
  case Nil
  show ?case by simp
next
  case (Cons a ts)
  show ?case
    using Cons [of "if timestamp_value m0 < timestamp_value a then a else m0"]
    by (auto split: if_splits)
qed

lemma series_min_least:
  assumes "ts \<noteq> []"
  shows "series_min ts \<in> set ts" "\<forall>t\<in>set ts. timestamp_value (series_min ts) \<le> timestamp_value t"
proof -
  from assms obtain a rest where ts: "ts = a # rest" by (cases ts) auto
  show "series_min ts \<in> set ts"
    using fold_min [of a rest] by (simp add: series_min_def ts)
  show "\<forall>t\<in>set ts. timestamp_value (series_min ts) \<le> timestamp_value t"
    using fold_min [of a rest] by (simp add: series_min_def ts)
qed

lemma series_max_greatest:
  assumes "ts \<noteq> []"
  shows "series_max ts \<in> set ts" "\<forall>t\<in>set ts. timestamp_value t \<le> timestamp_value (series_max ts)"
proof -
  from assms obtain a rest where ts: "ts = a # rest" by (cases ts) auto
  show "series_max ts \<in> set ts"
    using fold_max [of a rest] by (simp add: series_max_def ts)
  show "\<forall>t\<in>set ts. timestamp_value t \<le> timestamp_value (series_max ts)"
    using fold_max [of a rest] by (simp add: series_max_def ts)
qed

text \<open>
  C2: for every frame whose dates read back as timestamps, every start date that a
  timestamp can hold and every positive number of rows, the two lines of the
  \<open>Show Data\<close> button give the rows whose date is on or after the start date, in the
  order of the frame, cut to the first \<open>limit\<close> of them. For the dates January 1, 2
  and 3 of 2024 and the start date January 2, a limit of 10 gives the rows of January 2
  and 3, and a limit of 1 the row of January 2.
\<close>

theorem show_data_is_selection:
  assumes "\<forall>r\<in>set df. to_datetime_mdY (Date r) = Inr (date_of r)"
    and "valid_date startDate" and "in_bounds startDate" and "0 < limit"
  shows "show_data df startDate limit = Inr (select_spec date_of df startDate (nat limit))
       \<and> show_data [\<lparr>Date = ''01/01/2024''\<rparr>, \<lparr>Date = ''01/02/2024''\<rparr>,
                    \<lparr>Date = ''01/03/2024''\<rparr>] (mk_date 2024 1 2) 10
           = Inr [\<lparr>Date = ''01/02/2024''\<rparr>, \<lparr>Date = ''01/03/2024''\<rparr>]
       \<and> show_data [\<lparr>Date = ''01/01/2024''\<rparr>, \<lparr>Date = ''01/02/2024''\<rparr>,
                    \<lparr>Date = ''01/03/2024''\<rparr>] (mk_date 2024 1 2) 1
           = Inr [\<lparr>Date = ''01/02/2024''\<rparr>]"
proof (intro conjI)
  show "show_data df startDate limit = Inr (select_spec date_of df startDate (nat limit))"
    using show_data_filter [OF assms(1-3)] assms(4)
    by (simp add: select_spec_def head_positive)
  show "show_data [\<lparr>Date = ''01/01/2024''\<rparr>, \<lparr>Date = ''01/02/2024''\<rparr>,
                   \<lparr>Date = ''01/03/2024''\<rparr>] (mk_date 2024 1 2) 10
        = Inr [\<lparr>Date = ''01/02/2024''\<rparr>, \<lparr>Date = ''01/03/2024''\<rparr>]"
    by code_simp
  show "show_data [\<lparr>Date = ''01/01/2024''\<rparr>, \<lparr>Date = ''01/02/2024''\<rparr>,
                   \<lparr>Date = ''01/03/2024''\<rparr>] (mk_date 2024 1 2) 1
        = Inr [\<lparr>Date = ''01/02/2024''\<rparr>]"
    by code_simp
qed

lemma read_back_examples:
  "to_datetime_mdY ''12/31/2023'' = Inr (mk_date 2023 12 31)"
  "to_datetime_mdY ''01/01/2024'' = Inr (mk_date 2024 1 1)"
  "to_datetime_mdY ''01/02/2024'' = Inr (mk_date 2024 1 2)"
  "to_datetime_mdY ''01/03/2024'' = Inr (mk_date 2024 1 3)"
  by code_simp+

lemma start_examples:
  "valid_date (mk_date 2024 1 2)" "in_bounds (mk_date 2024 1 2)"
  "valid_date (mk_date 2024 1 4)" "in_bounds (mk_date 2024 1 4)"
  "valid_date (mk_date 2023 12 31)" "in_bounds (mk_date 2023 12 31)"
  "valid_date (mk_date 2024 1 1)" "in_bounds (mk_date 2024 1 1)"
  by code_simp+

theorem show_data_is_selection_witness:
  "show_data [\<lparr>Date = ''12/31/2023''\<rparr>, \<lparr>Date = ''01/03/2024''\<rparr>, \<lparr>Date = ''01/01/2024''\<rparr>,
              \<lparr>Date = ''01/02/2024''\<rparr>] (mk_date 2024 1 2) 1
   = Inr (select_spec (\<lambda>r. projr (to_datetime_mdY (Date r)))
            [\<lparr>Date = ''12/31/2023''\<rparr>, \<lparr>Date = ''01/03/2024''\<rparr>, \<lparr>Date = ''01/01/2024''\<rparr>,
             \<lparr>Date = ''01/02/2024''\<rparr>] (mk_date 2024 1 2) (nat 1))"
proof -
  have h: "\<forall>r\<in>set [\<lparr>Date = ''12/31/2023''\<rparr>, \<lparr>Date = ''01/03/2024''\<rparr>,
                     \<lparr>Date = ''01/01/2024''\<rparr>, \<lparr>Date = ''01/02/2024''\<rparr>].
             to_datetime_mdY (Date r) = Inr (projr (to_datetime_mdY (Date r)))"
    by (simp add: read_back_examples)
  have p: "(0::int) < 1" by simp
  from show_data_is_selection [OF h start_examples(1,2) p] show ?thesis
    by (rule conjunct1)
qed

text \<open>
  C5, as the claim states it, fails: \<open>pd.to_datetime(start_date)\<close> raises on a start
  date that a timestamp cannot hold, also when that date is after the date of every row,
  and also on the empty frame.
\<close>

theorem start_date_beyond_timestamps_raises:
  "valid_date (mk_date 2262 4 12)
   \<and> to_datetime_mdY ''01/01/2024'' = Inr (mk_date 2024 1 1)
   \<and> \<not> date_le (mk_date 2262 4 12) (mk_date 2024 1 1)
   \<and> show_data [\<lparr>Date = ''01/01/2024''\<rparr>] (mk_date 2262 4 12) 10 = Inl ValueError
   \<and> show_data ([] :: dated list) (mk_date 2262 4 12) 10 = Inl ValueError"
  by code_simp

text \<open>
  C5, amended: for a start date that a timestamp can hold, the filter does not raise
  on the edge cases. When the start date is after the date of every row the result is
  the empty frame; the empty frame is filtered to the empty frame; and the conversion of
  the empty frame is the empty frame.
\<close>

theorem filter_edge_cases:
  assumes "\<forall>r\<in>set df. to_datetime_mdY (Date r) = Inr (date_of r)
                      \<and> \<not> date_le start_date (date_of r)"
    and "valid_date start_date" and "in_bounds start_date"
  shows "show_data df start_date n = Inr []
       \<and> show_data [] start_date n = Inr []
       \<and> convert transform [] = Inr []"
proof (intro conjI)
  have "filter (\<lambda>r. date_le start_date (date_of r)) df = []"
    using assms(1) by (simp add: filter_empty_conv)
  moreover have "\<forall>r\<in>set df. to_datetime_mdY (Date r) = Inr (date_of r)"
    using assms(1) by simp
  ultimately show "show_data df start_date n = Inr []"
    using show_data_filter [OF _ assms(2,3), of df date_of n] by (simp add: head_Nil)
  show "show_data [] start_date n = Inr []"
    using assms(3) by (simp add: show_data_def to_timestamp_def select_mask_def head_Nil)
  show "convert transform [] = Inr []"
    by (simp add: convert_def DataFrame_def)
qed

theorem filter_edge_cases_witness:
  "show_data [\<lparr>Date = ''01/01/2024''\<rparr>, \<lparr>Date = ''01/03/2024''\<rparr>, \<lparr>Date = ''01/02/2024''\<rparr>]
     (mk_date 2024 1 4) 10 = Inr []"
proof -
  have h: "\<forall>r\<in>set [\<lparr>Date = ''01/01/2024''\<rparr>, \<lparr>Date = ''01/03/2024''\<rparr>,
                     \<lparr>Date = ''01/02/2024''\<rparr>].
             to_datetime_mdY (Date r) = Inr (projr (to_datetime_mdY (Date r)))
             \<and> \<not> date_le (mk_date 2024 1 4) (projr (to_datetime_mdY (Date r)))"
    by (simp add: read_back_examples date_le_def mk_date_def)
  from filter_edge_cases [OF h start_examples(3,4)] show ?thesis
    by (rule conjunct1)
qed

text \<open>
  C9: the rows hold their dates as strings \<open>MM/DD/YYYY\<close>, and the filter reads the
  strings back as timestamps before it compares: a row is kept exactly when its day is
  on or after the start day in the calendar. The strings themselves are in another
  order: \<open>01/01/2024\<close> comes before \<open>12/31/2023\<close> as a string, yet the row of December
  31, 2023 is not kept for the start date January 1, 2024.
\<close>

theorem filter_compares_dates:
  assumes "\<forall>r\<in>set df. valid_date (date_of r) \<and> in_bounds (date_of r)
                      \<and> Date r = strftime_mdY (date_of r)"
    and "valid_date start_date" and "in_bounds start_date"
  shows "show_data df start_date n
         = Inr (head n (filter (\<lambda>r. date_le start_date (date_of r)) df))
       \<and> str_le (strftime_mdY (mk_date 2024 1 1)) (strftime_mdY (mk_date 2023 12 31))
       \<and> show_data [\<lparr>Date = strftime_mdY (mk_date 2023 12 31)\<rparr>] (mk_date 2024 1 1) 10
           = Inr []"
proof (intro conjI)
  have "\<forall>r\<in>set df. to_datetime_mdY (Date r) = Inr (date_of r)"
    using assms(1) by (simp add: to_datetime_strftime)
  then show "show_data df start_date n
             = Inr (head n (filter (\<lambda>r. date_le start_date (date_of r)) df))"
    using assms(2,3) by (rule show_data_filter)
  show "str_le (strftime_mdY (mk_date 2024 1 1)) (strftime_mdY (mk_date 2023 12 31))"
    by code_simp
  show "show_data [\<lparr>Date = strftime_mdY (mk_date 2023 12 31)\<rparr>] (mk_date 2024 1 1) 10 = Inr []"
    by code_simp
qed

lemma strftime_examples:
  "strftime_mdY (mk_date 2023 12 31) = ''12/31/2023''"
  "strftime_mdY (mk_date 2024 1 1) = ''01/01/2024''"
  "strftime_mdY (mk_date 2024 1 2) = ''01/02/2024''"
  by code_simp+

theorem filter_compares_dates_witness:
  "show_data [\<lparr>Date = ''12/31/2023''\<rparr>, \<lparr>Date = ''01/02/2024''\<rparr>] (mk_date 2024 1 1) 10
   = Inr (head 10 (filter (\<lambda>r. date_le (mk_date 2024 1 1) (projr (to_datetime_mdY (Date r))))
                      [\<lparr>Date = ''12/31/2023''\<rparr>, \<lparr>Date = ''01/02/2024''\<rparr>]))"
proof -
  have h: "\<forall>r\<in>set [\<lparr>Date = ''12/31/2023''\<rparr>, \<lparr>Date = ''01/02/2024''\<rparr>].
             valid_date (projr (to_datetime_mdY (Date r)))
             \<and> in_bounds (projr (to_datetime_mdY (Date r)))
             \<and> Date r = strftime_mdY (projr (to_datetime_mdY (Date r)))"
    by (simp add: read_back_examples start_examples strftime_examples)
  from filter_compares_dates [OF h start_examples(7,8)] show ?thesis
    by (rule conjunct1)
qed

text \<open>
  The \<open>Show Data\<close> button runs its two lines on what \<open>filter_inputs\<close> gives, and on
  nothing else.
\<close>

lemma date_filter_runs_show_data:
  assumes "show_date_filter st = Some True"
    and "date_filter st picked chosen True = Inr st'"
  shows "\<exists>df start_date rows_to_show filtered.
           filter_inputs st picked chosen = Inr (df, start_date, rows_to_show)
           \<and> show_data df start_date rows_to_show = Inr filtered
           \<and> st' = st\<lparr>filtered_data := Some filtered\<rparr>"
  using assms by (auto simp: date_filter_def split: sum.splits)

text \<open>
  C10: the start date that reaches the filter lies between the least and the greatest
  date of the frame in the session: the widget is bounded by the minimum and the maximum
  of the dates of that frame, and the filter runs on the same frame.
\<close>

theorem start_date_within_available_dates:
  assumes "filter_inputs st picked chosen = Inr (df, start_date, rows_to_show)"
  shows "data st = Some df
       \<and> (\<exists>ds lo hi. sequence (map (\<lambda>r. to_datetime_mdY (Date r)) df) = Inr ds
            \<and> lo \<in> set ds \<and> hi \<in> set ds
            \<and> (\<forall>d\<in>set ds. date_le lo d \<and> date_le d hi)
            \<and> date_le lo start_date \<and> date_le start_date hi)"
proof -
  from assms have d: "data st = Some df"
    by (auto simp: filter_inputs_def Let_def split: option.splits sum.splits if_splits)
  from assms d obtain ds where
    s: "sequence (map (\<lambda>r. to_datetime_mdY (Date r)) df) = Inr ds" and ne: "ds \<noteq> []"
    and w: "date_input (series_min ds) (series_max ds) (series_min ds) picked = Inr start_date"
    by (auto simp: filter_inputs_def Let_def split: sum.splits if_splits)
  have v: "valid_date t" if "t \<in> set ds" for t
  proof -
    from that obtain i where i: "i < length ds" "t = ds ! i" by (auto simp: in_set_conv_nth)
    then have "to_datetime_mdY (Date (df ! i)) = Inr t"
      using sequence_map_Inr_conv [OF s] by simp
    then show ?thesis by (simp add: to_datetime_mdY_valid)
  qed
  have lo: "series_min ds \<in> set ds" and hi: "series_max ds \<in> set ds"
    using ne by (simp_all add: series_min_least series_max_greatest)
  have "\<forall>t\<in>set ds. date_le (series_min ds) t \<and> date_le t (series_max ds)"
    using series_min_least(2) [OF ne] series_max_greatest(2) [OF ne] v lo hi
    by (simp add: timestamp_le_iff)
  moreover have "date_le (series_min ds) start_date \<and> date_le start_date (series_max ds)"
    using w by (auto simp: date_input_def split: if_splits option.splits)
  ultimately show ?thesis using d s lo hi by blast
qed

lemma session_example:
  "filter_inputs
     \<lparr>data = Some [make_row (\<lambda>c. c) ''12/31/2023'' (replicate 10 None),
                   make_row (\<lambda>c. c) ''01/03/2024'' (replicate 10 None),
                   make_row (\<lambda>c. c) ''01/01/2024'' (replicate 10 None)],
      show_date_filter = Some True, filtered_data = None\<rparr>
     (Some (mk_date 2024 1 2)) (Some 1)
   = Inr ([make_row (\<lambda>c. c) ''12/31/2023'' (replicate 10 None),
           make_row (\<lambda>c. c) ''01/03/2024'' (replicate 10 None),
           make_row (\<lambda>c. c) ''01/01/2024'' (replicate 10 None)], mk_date 2024 1 2, 50)"
  by code_simp

theorem start_date_within_available_dates_witness:
  "\<exists>ds lo hi.
     sequence (map (\<lambda>r. to_datetime_mdY (Date r))
       [make_row (\<lambda>c. c) ''12/31/2023'' (replicate 10 None),
        make_row (\<lambda>c. c) ''01/03/2024'' (replicate 10 None),
        make_row (\<lambda>c. c) ''01/01/2024'' (replicate 10 None)]) = Inr ds
     \<and> lo \<in> set ds \<and> hi \<in> set ds
     \<and> (\<forall>d\<in>set ds. date_le lo d \<and> date_le d hi)
     \<and> date_le lo (mk_date 2024 1 2) \<and> date_le (mk_date 2024 1 2) hi"
  using start_date_within_available_dates [OF session_example] by (rule conjunct2)

section \<open>From the year and the day of the year to the date\<close>

lemma month_day_correct:
  assumes "1 \<le> m" "m \<le> 12" "1 \<le> dd" "dd \<le> days_in_month y m"
  shows "month_day (days_before_month y m + dd - 1) (is_leap y) = (m, dd)"
proof -
  define n where "n = days_before_month y m + dd - 1"
  define q where "q = (n + 50) div 32"
  have q: "32 * q \<le> n + 50" "n + 50 < 32 * q + 32"
    unfolding q_def by simp_all
  have leap: "is_leap y \<or> \<not> is_leap y" by simp
  show ?thesis
    unfolding n_def [symmetric] month_day_def q_def [symmetric]
    using month_cases [OF assms(1,2)] assms(3,4) q leap
    by (elim disjE;
        simp add: n_def days_before_month_def DAYS_BEFORE_MONTH_def days_in_month_def
                  DAYS_IN_MONTH_def Let_def;
        linarith)
qed

lemma ord2ymd_eval:
  assumes "n0 - 1 = 146097 * n400 + r1" "0 \<le> r1" "r1 < 146097"
    and "r1 = 36524 * n100 + r2" "0 \<le> r2" "r2 < 36524"
    and "r2 = 1461 * n4 + r3" "0 \<le> r3" "r3 < 1461"
    and "r3 = 365 * n1 + r4" "0 \<le> r4" "r4 < 365"
  shows "ord2ymd n0 =
     (if n1 = 4 \<or> n100 = 4 then mk_date (n400 * 400 + 1 + n100 * 100 + n4 * 4 + n1 - 1) 12 31
      else (case month_day r4 (n1 = 3 \<and> (n4 \<noteq> 24 \<or> n100 = 3)) of
              (mth, dd) \<Rightarrow> mk_date (n400 * 400 + 1 + n100 * 100 + n4 * 4 + n1) mth dd))"
proof -
  have a: "(n0 - 1) div 146097 = n400" "(n0 - 1) mod 146097 = r1"
    using assms(1-3) by (rule int_div_pos_eq, rule int_mod_pos_eq)
  have b: "r1 div 36524 = n100" "r1 mod 36524 = r2"
    using assms(4-6) by (rule int_div_pos_eq, rule int_mod_pos_eq)
  have c: "r2 div 1461 = n4" "r2 mod 1461 = r3"
    using assms(7-9) by (rule int_div_pos_eq, rule int_mod_pos_eq)
  have d: "r3 div 365 = n1" "r3 mod 365 = r4"
    using assms(10-12) by (rule int_div_pos_eq, rule int_mod_pos_eq)
  show ?thesis
    unfolding ord2ymd_def DI400Y_def DI100Y_def DI4Y_def Let_def a b c d month_day_def
    by (simp split: prod.splits)
qed


lemma year_split:
  fixes z :: int
  obtains a b c e where "z = 400 * a + 100 * b + 4 * c + e"
    "0 \<le> b" "b \<le> 3" "0 \<le> c" "c \<le> 24" "0 \<le> e" "e \<le> 3"
proof -
  define a where "a = z div 400"
  define r where "r = z mod 400"
  define b where "b = r div 100"
  define s where "s = r mod 100"
  define c where "c = s div 4"
  define e where "e = s mod 4"
  have 1: "z = 400 * a + r" "0 \<le> r" "r < 400" by (simp_all add: a_def r_def)
  have 2: "r = 100 * b + s" "0 \<le> s" "s < 100" by (simp_all add: b_def s_def)
  have 3: "s = 4 * c + e" "0 \<le> e" "e < 4" by (simp_all add: c_def e_def)
  from 1 2 3 have "z = 400 * a + 100 * b + 4 * c + e"
    "0 \<le> b" "b \<le> 3" "0 \<le> c" "c \<le> 24" "0 \<le> e" "e \<le> 3"
    by linarith+
  then show thesis by (rule that)
qed

lemma mod_succ:
  fixes z k q r :: int
  assumes "z = k * q + r" "0 \<le> r" "r < k"
  shows "((z + 1) mod k = 0) = (r = k - 1)"
proof (cases "r = k - 1")
  case True
  then have "z + 1 = k * (q + 1) + 0" using assms(1) by (simp add: algebra_simps)
  then have "(z + 1) mod k = 0" by (rule int_mod_pos_eq) (use assms in simp_all)
  with True show ?thesis by simp
next
  case False
  have "z + 1 = k * q + (r + 1)" using assms(1) by simp
  then have "(z + 1) mod k = r + 1" by (rule int_mod_pos_eq) (use assms False in simp_all)
  with False assms(2) show ?thesis by simp
qed

lemma year_facts:
  fixes a b c e :: int
  assumes "0 \<le> b" "b \<le> 3" "0 \<le> c" "c \<le> 24" "0 \<le> e" "e \<le> 3"
  defines "y \<equiv> 400 * a + 100 * b + 4 * c + e + 1"
  shows "days_before_year y = 146097 * a + 36524 * b + 1461 * c + 365 * e"
    and "is_leap y = (e = 3 \<and> (c \<noteq> 24 \<or> b = 3))"
proof -
  define z where "z = y - 1"
  have z: "z = 400 * a + 100 * b + 4 * c + e" by (simp add: z_def y_def)
  have "z = 4 * (100 * a + 25 * b + c) + e" using z by simp
  then have d4: "z div 4 = 100 * a + 25 * b + c"
    by (rule int_div_pos_eq) (use assms in simp_all)
  have "z = 100 * (4 * a + b) + (4 * c + e)" using z by simp
  then have d100: "z div 100 = 4 * a + b"
    by (rule int_div_pos_eq) (use assms in simp_all)
  have "z = 400 * a + (100 * b + 4 * c + e)" using z by simp
  then have d400: "z div 400 = a"
    by (rule int_div_pos_eq) (use assms in simp_all)
  have "days_before_year y = z * 365 + z div 4 - z div 100 + z div 400"
    by (simp add: days_before_year_def Let_def z_def)
  then have "days_before_year y = z * 365 + (100 * a + 25 * b + c) - (4 * a + b) + a"
    by (simp only: d4 d100 d400)
  then show "days_before_year y = 146097 * a + 36524 * b + 1461 * c + 365 * e"
    by (simp add: z)
  have y: "y = z + 1" by (simp add: z_def)
  have m4: "(y mod 4 = 0) = (e = 3)"
    unfolding y using mod_succ [of z 4 "100 * a + 25 * b + c" e] z assms by simp
  have m100: "(y mod 100 = 0) = (4 * c + e = 99)"
    unfolding y using mod_succ [of z 100 "4 * a + b" "4 * c + e"] z assms by simp
  have m400: "(y mod 400 = 0) = (100 * b + 4 * c + e = 399)"
    unfolding y using mod_succ [of z 400 a "100 * b + 4 * c + e"] z assms by simp
  show "is_leap y = (e = 3 \<and> (c \<noteq> 24 \<or> b = 3))"
    unfolding is_leap_def m4 m100 m400 using assms by auto
qed


lemma last_day_of_leap_year:
  assumes "valid_date d" "day_of_year d = 366"
  shows "month d = 12 \<and> day d = 31"
proof -
  have m: "1 \<le> month d" "month d \<le> 12" using assms(1) by (simp_all add: valid_date_def)
  show ?thesis
    using month_cases [OF m] assms
    by (auto simp: valid_date_def day_of_year_def days_before_month_def DAYS_BEFORE_MONTH_def
        days_in_month_def DAYS_IN_MONTH_def split: if_splits)
qed

lemma ord2ymd_toordinal:
  assumes "valid_date d"
  shows "ord2ymd (toordinal d) = d"
proof -
  obtain a b c e where z: "year d - 1 = 400 * a + 100 * b + 4 * c + e"
    and bd: "0 \<le> b" "b \<le> 3" "0 \<le> c" "c \<le> 24" "0 \<le> e" "e \<le> 3"
    by (rule year_split)
  have y: "400 * a + 100 * b + 4 * c + e + 1 = year d" using z by simp
  have dby: "days_before_year (year d) = 146097 * a + 36524 * b + 1461 * c + 365 * e"
    using year_facts(1) [OF bd, of a] by (simp only: y)
  have leap: "is_leap (year d) = (e = 3 \<and> (c \<noteq> 24 \<or> b = 3))"
    using year_facts(2) [OF bd, of a] by (simp only: y)
  define n where "n = day_of_year d - 1"
  have n: "0 \<le> n" "n \<le> days_in_year (year d) - 1"
    using day_of_year_bounds [OF assms] by (simp_all add: n_def)
  have N: "toordinal d - 1 = 146097 * a + (36524 * b + 1461 * c + 365 * e + n)"
    by (simp add: toordinal_eq dby n_def)
  have v: "1 \<le> month d" "month d \<le> 12" "1 \<le> day d" "day d \<le> days_in_month (year d) (month d)"
    using assms by (simp_all add: valid_date_def)
  have md: "month_day n (is_leap (year d)) = (month d, day d)"
    using month_day_correct [OF v] by (simp add: n_def day_of_year_def)
  have d: "mk_date (year d) (month d) (day d) = d" by (simp add: mk_date_def)
  have "n \<le> 365" using n(2) by (simp add: days_in_year_def split: if_splits)
  then consider (A) "n = 365" "b = 3" "c = 24" | (B1) "n = 365" "\<not> (b = 3 \<and> c = 24)"
    | (B2) "n \<le> 364"
    by atomize_elim auto
  then show ?thesis
  proof cases
    case A
    then have e: "e = 3" using n(2) leap by (auto simp: days_in_year_def split: if_splits)
    have l: "month d = 12 \<and> day d = 31"
      using last_day_of_leap_year [OF assms] A(1) by (simp add: n_def)
    have p: "toordinal d - 1 = 146097 * a + 146096"
      unfolding N A e by simp
    have "ord2ymd (toordinal d) = mk_date (a * 400 + 1 + 4 * 100 + 0 * 4 + 0 - 1) 12 31"
      by (subst ord2ymd_eval [of "toordinal d" a 146096 4 0 0 0 0 0, OF p]) simp_all
    also have "a * 400 + 1 + 4 * 100 + 0 * 4 + 0 - 1 = year d"
      unfolding y [symmetric] A e by simp
    finally show ?thesis using d l by simp
  next
    case B1
    then have e: "e = 3" and c: "c \<le> 23"
      using n(2) leap bd by (auto simp: days_in_year_def split: if_splits)
    have l: "month d = 12 \<and> day d = 31"
      using last_day_of_leap_year [OF assms] B1(1) by (simp add: n_def)
    have p: "toordinal d - 1 = 146097 * a + (36524 * b + 1461 * c + 1460)"
      unfolding N B1(1) e by simp
    have q: "0 \<le> 36524 * b + 1461 * c + 1460" "36524 * b + 1461 * c + 1460 < 146097"
      "36524 * b + 1461 * c + 1460 = 36524 * b + (1461 * c + 1460)"
      "0 \<le> 1461 * c + 1460" "1461 * c + 1460 < 36524"
      using bd c by simp_all
    have "ord2ymd (toordinal d) = mk_date (a * 400 + 1 + b * 100 + c * 4 + 4 - 1) 12 31"
      by (subst ord2ymd_eval [of "toordinal d" a "36524 * b + 1461 * c + 1460" b
            "1461 * c + 1460" c 1460 4 0, OF p q]) simp_all
    also have "a * 400 + 1 + b * 100 + c * 4 + 4 - 1 = year d"
      unfolding y [symmetric] e by simp
    finally show ?thesis using d l by simp
  next
    case B2
    have q: "0 \<le> 36524 * b + 1461 * c + 365 * e + n"
      "36524 * b + 1461 * c + 365 * e + n < 146097"
      "36524 * b + 1461 * c + 365 * e + n = 36524 * b + (1461 * c + 365 * e + n)"
      "0 \<le> 1461 * c + 365 * e + n" "1461 * c + 365 * e + n < 36524"
      "1461 * c + 365 * e + n = 1461 * c + (365 * e + n)"
      "0 \<le> 365 * e + n" "365 * e + n < 1461"
      "365 * e + n = 365 * e + n" "0 \<le> n" "n < 365"
      using bd n(1) B2 by simp_all
    have ne: "e \<noteq> 4" "b \<noteq> 4" using bd by simp_all
    have "ord2ymd (toordinal d)
          = (case month_day n (e = 3 \<and> (c \<noteq> 24 \<or> b = 3)) of
               (mth, dd) \<Rightarrow> mk_date (a * 400 + 1 + b * 100 + c * 4 + e) mth dd)"
      by (subst ord2ymd_eval [of "toordinal d" a "36524 * b + 1461 * c + 365 * e + n" b
            "1461 * c + 365 * e + n" c "365 * e + n" e n, OF N q]) (simp add: ne)
    also have "a * 400 + 1 + b * 100 + c * 4 + e = year d"
      unfolding y [symmetric] by simp
    finally have "ord2ymd (toordinal d)
          = (case month_day n (e = 3 \<and> (c \<noteq> 24 \<or> b = 3)) of
               (mth, dd) \<Rightarrow> mk_date (year d) mth dd)" .
    moreover have "month_day n (e = 3 \<and> (c \<noteq> 24 \<or> b = 3)) = (month d, day d)"
      using md unfolding leap .
    ultimately show ?thesis using d by simp
  qed
qed


lemma digit_val_le: "is_digit c \<Longrightarrow> digit_val c \<le> 9"
  unfolding is_digit_def digit_val_def by linarith

lemma in_range_val: "in_range lo hi c \<Longrightarrow> lo \<le> digit_val c \<and> digit_val c \<le> hi"
  by (simp add: in_range_def)

lemma orelse_Some: "orelse x y = Some z \<Longrightarrow> x = Some z \<or> y = Some z"
  by (cases x) (simp_all add: orelse_def)

lemma m3_Some:
  "m3 p q r s = Some (v, rest) \<Longrightarrow>
   \<exists>a b c. s = a # b # c # rest \<and> p a \<and> q b \<and> r c
           \<and> v = 100 * digit_val a + 10 * digit_val b + digit_val c"
  by (auto simp: m3_def split: list.splits if_splits)

lemma m2_Some:
  "m2 p q s = Some (v, rest) \<Longrightarrow>
   \<exists>a b. s = a # b # rest \<and> p a \<and> q b \<and> v = 10 * digit_val a + digit_val b"
  by (auto simp: m2_def split: list.splits if_splits)

lemma m1_Some:
  "m1 p s = Some (v, rest) \<Longrightarrow> \<exists>a. s = a # rest \<and> p a \<and> v = digit_val a"
  by (auto simp: m1_def split: list.splits if_splits)

lemma match_j_whole:
  assumes "match_j s = Some (v, [])"
  shows "foldl (\<lambda>a c. 10 * a + digit_val c) 0 s = v \<and> v \<le> 366"
proof -
  from assms consider
      "m3 (in_range 3 3) (in_range 6 6) (in_range 0 6) s = Some (v, [])"
    | "m3 (in_range 3 3) (in_range 0 5) is_digit s = Some (v, [])"
    | "m3 (in_range 1 2) is_digit is_digit s = Some (v, [])"
    | "m3 (in_range 0 0) (in_range 1 9) is_digit s = Some (v, [])"
    | "m3 (in_range 0 0) (in_range 0 0) (in_range 1 9) s = Some (v, [])"
    | "m2 (in_range 1 9) is_digit s = Some (v, [])"
    | "m2 (in_range 0 0) (in_range 1 9) s = Some (v, [])"
    | "m1 (in_range 1 9) s = Some (v, [])"
    unfolding match_j_def by (auto dest!: orelse_Some)
  then show ?thesis
    by cases (auto dest!: m3_Some m2_Some m1_Some in_range_val digit_val_le)
qed

lemma match_j_nondigit: "\<not> is_digit c \<Longrightarrow> match_j (c # s) = None"
  by (simp add: match_j_def m3_def m2_def m1_def orelse_def in_range_def split: list.splits)

lemma match_j_zero: "match_j ''0'' = None"
  by code_simp

lemma match_j_out_of_range:
  assumes "ddd < 1 \<or> 366 < ddd"
  shows "match_j (str_int ddd) = None \<or> (\<exists>v r. match_j (str_int ddd) = Some (v, r) \<and> r \<noteq> [])"
proof -
  consider "ddd < 0" | "ddd = 0" | "366 < ddd" using assms by linarith
  then show ?thesis
  proof cases
    case 1
    then show ?thesis by (simp add: str_int_def match_j_nondigit is_digit_def)
  next
    case 2
    then show ?thesis by (simp add: str_int_def str_nat_1 digit_char_def match_j_zero)
  next
    case 3
    show ?thesis
    proof (cases "match_j (str_int ddd)")
      case None
      then show ?thesis by simp
    next
      case (Some p)
      obtain v r where p: "p = (v, r)" by (cases p)
      have "r \<noteq> []"
      proof
        assume "r = []"
        then have "match_j (str_nat (nat ddd)) = Some (v, [])"
          using Some p 3 by (simp add: str_int_def)
        from match_j_whole [OF this] have "nat ddd \<le> 366" by (simp add: digits_value)
        with 3 show False by simp
      qed
      then show ?thesis using Some p by simp
    qed
  qed
qed

lemma match_j_str_nat:
  assumes "1 \<le> j" "j \<le> 366"
  shows "match_j (str_nat j) = Some (j, [])"
proof -
  consider "j < 10" | "10 \<le> j" "j < 100" | "100 \<le> j" by linarith
  then show ?thesis
  proof cases
    case 1
    then show ?thesis using assms
      by (simp add: str_nat_1 match_j_def m3_def m2_def m1_def orelse_def)
  next
    case 2
    then have "j div 10 < 10" "j mod 10 < 10" "1 \<le> j div 10" "10 * (j div 10) + j mod 10 = j"
      by simp_all
    then show ?thesis using 2
      by (simp add: str_nat_2 match_j_def m3_def m2_def m1_def orelse_def)
  next
    case 3
    define a where "a = j div 10 div 10"
    define b where "b = j div 10 mod 10"
    define c where "c = j mod 10"
    have lt: "a < 10" "b < 10" "c < 10" using assms by (simp_all add: a_def b_def c_def)
    have s: "str_nat j = [digit_char a, digit_char b, digit_char c]"
      using 3 assms by (simp add: str_nat_3 a_def b_def c_def)
    have "foldl (\<lambda>a c. 10 * a + digit_val c) 0 (str_nat j) = j" by (rule digits_value)
    then have v: "100 * a + 10 * b + c = j" using lt by (simp add: s)
    then have "a = 3 \<and> b = 6 \<and> c \<le> 6 \<or> a = 3 \<and> b \<le> 5 \<or> a = 1 \<or> a = 2"
      using 3 assms(2) lt by linarith
    then show ?thesis using lt v
      by (auto simp: s match_j_def m3_def m2_def m1_def orelse_def)
  qed
qed


lemma strptime_Yj_out_of_range:
  assumes "1000 \<le> yyyy" "yyyy \<le> 9999" "ddd < 1 \<or> 366 < ddd"
  shows "strptime_Yj (str_int yyyy @ str_int ddd) = Inl ValueError"
proof -
  have Y: "match_Y (str_int yyyy @ str_int ddd) = Some (nat yyyy, str_int ddd)"
    using assms(1,2) by (simp add: str_int_def match_Y_str_nat)
  from match_j_out_of_range [OF assms(3)] show ?thesis
    by (auto simp: strptime_Yj_def Y)
qed

lemma strptime_Yj_in_range:
  assumes "1000 \<le> yyyy" "yyyy \<le> 9999" "1 \<le> ddd" "ddd \<le> 366"
  shows "strptime_Yj (str_int yyyy @ str_int ddd) = fromordinal (days_before_year yyyy + ddd)"
proof -
  have Y: "match_Y (str_int yyyy @ str_int ddd) = Some (nat yyyy, str_int ddd)"
    using assms(1,2) by (simp add: str_int_def match_Y_str_nat)
  have j: "match_j (str_int ddd) = Some (nat ddd, [])"
    using assms(3,4) by (simp add: str_int_def match_j_str_nat)
  have v: "valid_date (mk_date yyyy 1 1)"
    using assms(1,2) by (simp add: valid_date_def mk_date_def days_in_month_def DAYS_IN_MONTH_def)
  have t: "toordinal (mk_date yyyy 1 1) = days_before_year yyyy + 1"
    by (simp add: toordinal_def ymd2ord_def mk_date_def days_before_month_def
        DAYS_BEFORE_MONTH_def)
  show ?thesis
    using assms(1,3) v by (simp add: strptime_Yj_def Y j t add.commute)
qed

lemma toordinal_range:
  assumes "valid_date d"
  shows "1 \<le> toordinal d" "toordinal d \<le> 3652059"
proof -
  have lo: "valid_date (mk_date 1 1 1)" "toordinal (mk_date 1 1 1) = 1"
    and hi: "valid_date (mk_date 9999 12 31)" "toordinal (mk_date 9999 12 31) = 3652059"
    by code_simp+
  have "date_le (mk_date 1 1 1) d"
    using assms by (auto simp: date_le_def mk_date_def valid_date_def)
  then show "1 \<le> toordinal d"
    using toordinal_le_iff [OF lo(1) assms] lo(2) by simp
  have "day d \<le> 31" using assms days_in_month_le [of "year d" "month d"]
    by (simp add: valid_date_def)
  then have "date_le d (mk_date 9999 12 31)"
    using assms by (auto simp: date_le_def mk_date_def valid_date_def)
  then show "toordinal d \<le> 3652059"
    using toordinal_le_iff [OF assms hi(1)] hi(2) by simp
qed

lemma fromordinal_toordinal: "valid_date d \<Longrightarrow> fromordinal (toordinal d) = Inr d"
  using toordinal_range [of d] by (simp add: fromordinal_def ord2ymd_toordinal)

lemma date_of_year_day_calendar:
  assumes "valid_date d" "in_bounds d"
  shows "date_of_year_day (year d) (day_of_year d) = Inr (strftime_mdY d)"
proof -
  have y: "1000 \<le> year d" "year d \<le> 9999"
    using in_bounds_year [OF assms] by simp_all
  have j: "1 \<le> day_of_year d" "day_of_year d \<le> 366"
    using day_of_year_bounds [OF assms(1)] by (simp_all add: days_in_year_def split: if_splits)
  have "strptime_Yj (str_int (year d) @ str_int (day_of_year d)) = Inr d"
    using strptime_Yj_in_range [OF y j] fromordinal_toordinal [OF assms(1)]
    by (simp add: toordinal_eq)
  then show ?thesis
    using assms(2) by (simp add: date_of_year_day_def to_datetime_Yj_def to_timestamp_def)
qed

lemma date_of_year_day_out_of_range:
  assumes "1000 \<le> yyyy" "yyyy \<le> 9999" "ddd < 1 \<or> 366 < ddd"
  shows "date_of_year_day yyyy ddd = Inl ValueError"
  using strptime_Yj_out_of_range [OF assms]
  by (simp add: date_of_year_day_def to_datetime_Yj_def to_timestamp_def)

lemma date_of_year_day_366_common_year:
  assumes "1677 \<le> yyyy" "yyyy \<le> 2261" "\<not> is_leap yyyy"
  shows "date_of_year_day yyyy 366 = Inr (strftime_mdY (mk_date (yyyy + 1) 1 1))"
proof -
  define d where "d = mk_date (yyyy + 1) 1 1"
  have v: "valid_date d"
    using assms(1,2) by (simp add: d_def valid_date_def mk_date_def days_in_month_def DAYS_IN_MONTH_def)
  have lo: "valid_date (mk_date 1677 9 22)" and hi: "valid_date (mk_date 2262 4 11)"
    by code_simp+
  have "date_le (mk_date 1677 9 22) d" "date_le d (mk_date 2262 4 11)"
    using assms(1,2) by (auto simp: d_def date_le_def mk_date_def)
  then have b: "in_bounds d"
    using toordinal_le_iff [OF lo v] toordinal_le_iff [OF v hi]
    by (simp add: in_bounds_def toordinal_def mk_date_def)
  have "toordinal d = days_before_year yyyy + 366"
    using assms(3)
    by (simp add: d_def toordinal_def ymd2ord_def mk_date_def days_before_month_def
        DAYS_BEFORE_MONTH_def days_before_year_next days_in_year_def)
  then have "strptime_Yj (str_int yyyy @ str_int 366) = Inr d"
    using strptime_Yj_in_range [of yyyy 366] assms(1,2) fromordinal_toordinal [OF v] by simp
  then show ?thesis
    using b by (simp add: date_of_year_day_def to_datetime_Yj_def to_timestamp_def d_def)
qed

text \<open>
  A line whose date conversion raises fails the whole fetch: the \<open>ValueError\<close> is not a
  \<open>RequestException\<close>, so it leaves \<open>read_txt_from_url\<close>.
\<close>

lemma strptime_Yj_error: "strptime_Yj s = Inl e \<Longrightarrow> e = ValueError"
  by (auto simp: strptime_Yj_def fromordinal_def split: option.splits if_splits)

lemma row_date_error: "row_date cs = Inl e \<Longrightarrow> e = ValueError"
  by (auto simp: row_date_def date_of_year_day_def to_datetime_Yj_def to_timestamp_def
      dest: strptime_Yj_error split: option.splits sum.splits if_splits)

lemma sequence_error:
  assumes "\<forall>x\<in>set xs. \<forall>e. x = Inl e \<longrightarrow> e = err" "\<exists>x\<in>set xs. \<exists>e. x = Inl e"
  shows "sequence xs = Inl err"
  using assms
proof (induction xs)
  case Nil
  then show ?case by simp
next
  case (Cons x xs)
  show ?case
  proof (cases x)
    case (Inl e)
    then have "e = err" using Cons.prems(1) by simp
    then show ?thesis using Inl by simp
  next
    case (Inr v)
    then have "\<exists>x\<in>set xs. \<exists>e. x = Inl e" using Cons.prems(2) by auto
    then have "sequence xs = Inl err" using Cons.IH Cons.prems(1) by simp
    then show ?thesis using Inr by simp
  qed
qed

lemma parse_text_bad_date:
  assumes "read_csv text = Inr css" "\<exists>cs\<in>set css. \<exists>e. row_date cs = Inl e"
  shows "parse_text num text = Inl ValueError"
proof -
  have "sequence (map row_date css) = Inl ValueError"
    using assms(2) by (intro sequence_error) (auto dest: row_date_error)
  then show ?thesis by (simp add: parse_text_def assms(1))
qed

lemma read_txt_from_url_bad_date:
  assumes "get url = Response status text" "raise_for_status status = Inr ()"
    and "read_csv text = Inr css" "\<exists>cs\<in>set css. \<exists>e. row_date cs = Inl e"
  shows "read_txt_from_url get num url = Inl ValueError"
  using parse_text_bad_date [OF assms(3,4), of num]
  by (simp add: read_txt_from_url_def assms(1,2))

text \<open>
  C4, as the claim states it, fails: day 60 of the leap year 2024 is February 29, not
  March 1, and day 366 of the common year 2023 is not refused but read as January 1,
  2024.
\<close>

theorem year_2024_day_60_is_february_29:
  "date_of_year_day 2024 60 = Inr ''02/29/2024''
   \<and> date_of_year_day 2024 60 \<noteq> Inr ''03/01/2024''
   \<and> date_of_year_day 2023 366 = Inr ''01/01/2024''"
  by code_simp

text \<open>
  C4, amended: the year and the day of the year are combined by the ordinal-day
  convention, day 1 being January 1 and leap years counted. Day 60 of 2024 is February
  29, 2024, and day 61 is March 1, 2024; every day of the calendar that a timestamp can
  hold is the date read from its year and its ordinal day in that year; and a day of
  the year below 1 or above 366 makes the conversion raise \<open>ValueError\<close>.
\<close>

theorem year_day_to_date:
  "date_of_year_day 2024 60 = Inr ''02/29/2024''
   \<and> date_of_year_day 2024 61 = Inr ''03/01/2024''
   \<and> (valid_date d \<and> in_bounds d
        \<longrightarrow> date_of_year_day (year d) (day_of_year d) = Inr (strftime_mdY d))
   \<and> (1000 \<le> yyyy \<and> yyyy \<le> 9999 \<and> (ddd < 1 \<or> 366 < ddd)
        \<longrightarrow> date_of_year_day yyyy ddd = Inl ValueError)"
proof (intro conjI impI)
  show "date_of_year_day 2024 60 = Inr ''02/29/2024''" by code_simp
  show "date_of_year_day 2024 61 = Inr ''03/01/2024''" by code_simp
  show "date_of_year_day (year d) (day_of_year d) = Inr (strftime_mdY d)"
    if "valid_date d \<and> in_bounds d"
    using that by (simp add: date_of_year_day_calendar)
  show "date_of_year_day yyyy ddd = Inl ValueError"
    if "1000 \<le> yyyy \<and> yyyy \<le> 9999 \<and> (ddd < 1 \<or> 366 < ddd)"
    using that by (simp add: date_of_year_day_out_of_range)
qed

theorem year_day_to_date_witness:
  "date_of_year_day 2023 60 = Inr ''03/01/2023'' \<and> date_of_year_day 2024 367 = Inl ValueError"
proof -
  have d: "valid_date (mk_date 2023 3 1) \<and> in_bounds (mk_date 2023 3 1)"
    "year (mk_date 2023 3 1) = 2023" "day_of_year (mk_date 2023 3 1) = 60"
    "strftime_mdY (mk_date 2023 3 1) = ''03/01/2023''"
    by code_simp+
  have r: "(1000::int) \<le> 2024 \<and> (2024::int) \<le> 9999 \<and> ((367::int) < 1 \<or> (366::int) < 367)"
    by simp
  from year_day_to_date [of "mk_date 2023 3 1" 2024 367] d r show ?thesis
    by simp
qed

section \<open>Lines with missing fields\<close>

lemma length_column_names: "length column_names = 10"
  by (simp add: column_names_def)

lemma read_csv_short_lines:
  assumes "tokenize text = Inr rows" "\<forall>r\<in>set rows. length r \<le> 10"
  shows "read_csv text = Inr (map (pad_row 10) rows)"
proof (cases rows)
  case Nil
  then show ?thesis by (simp add: read_csv_def assms(1))
next
  case (Cons r0 rest)
  then have "length r0 \<le> 10" "\<forall>r\<in>set rest. length r \<le> 10"
    using assms(2) by simp_all
  then show ?thesis
    by (simp add: read_csv_def assms(1) Cons length_column_names list_ex_iff max_def not_less)
qed

lemma zip_map_same: "map f (zip (map g xs) (map h xs)) = map (\<lambda>x. f (g x, h x)) xs"
  by (induction xs) simp_all

text \<open>
  What the tokenizer makes of a quoted field, of a quote that is not closed, and of a
  field that reads as missing.
\<close>

lemma tokenize_examples:
  "tokenize (''2024 60 '' @ [CHR 0x22] @ ''a b'' @ [CHR 0x22] @ '' T 1.0 2.0 3.0 0.1 0.2'')
   = Inr [[''2024'', ''60'', ''a b'', ''T'', ''1.0'', ''2.0'', ''3.0'', ''0.1'', ''0.2'']]"
  "tokenize (''2024 60 '' @ [CHR 0x22] @ ''a T 1.0 2.0 3.0 0.1 0.2 0.3'') = Inl ParserError"
  "pad_row 10 [''2024'', ''60'', ''NA'', ''None'', ''1.0'', ''NaN'', ''3.0'', ''0.1'', ''null'']
   = [Some ''2024'', Some ''60'', None, None, Some ''1.0'', None, Some ''3.0'', Some ''0.1'',
      None, None]"
  "tokenize (''  2024 1 X T 1 2 3 4 5 6  '' @ [CHR 0x0D, CHR 0x0A, CHR 0x0A]
             @ ''2024'' @ [CHR 0x09] @ ''2 X T 1 2 3 4 5 6'' @ [CHR 0x0A] @ ''   '' @ [CHR 0x0A])
   = Inr [[''2024'', ''1'', ''X'', ''T'', ''1'', ''2'', ''3'', ''4'', ''5'', ''6''],
          [''2024'', ''2'', ''X'', ''T'', ''1'', ''2'', ''3'', ''4'', ''5'', ''6'']]"
  by code_simp+

text \<open>
  C3, as the claim states it, fails: a line of eight fields is not reported as an error.
  It becomes a row whose last two columns are missing.
\<close>

theorem eight_field_line_accepted:
  "tokenize ''2024 60 X T 1.0 2.0 3.0 0.1''
     = Inr [[''2024'', ''60'', ''X'', ''T'', ''1.0'', ''2.0'', ''3.0'', ''0.1'']]
   \<and> parse_text id ''2024 60 X T 1.0 2.0 3.0 0.1''
     = Inr [\<lparr>Date = ''02/29/2024'', X = Some ''X'', isWithinTolerance = Some ''T'',
             X_m = Some ''1.0'', Y_m = Some ''2.0'', Z_m = Some ''3.0'',
             sigmaX_m = Some ''0.1'', sigmaY_m = None, sigmaZ_m = None\<rparr>]"
  by code_simp

text \<open>
  C3, amended: a line is read into the ten columns \<open>YYYY\<close>, \<open>DDD\<close>, \<open>X\<close>,
  \<open>isWithinTolerance\<close>, \<open>X(m)\<close>, \<open>Y(m)\<close>, \<open>Z(m)\<close>, \<open>sigmaX(m)\<close>, \<open>sigmaY(m)\<close>
  and \<open>sigmaZ(m)\<close>. When the tokenizer splits the text into lines of which none has
  more than ten fields, and the first two fields of every line give a date, the file is
  accepted whole: each line becomes one row, in order, and the columns for which a line
  has no field are missing in its row.
\<close>

theorem short_lines_accepted:
  assumes "tokenize text = Inr rows"
    and "\<forall>r\<in>set rows. length r \<le> 10 \<and> row_date (pad_row 10 r) = Inr (date_of r)"
  shows "parse_text num text
         = Inr (map (\<lambda>r. make_row num (date_of r) (pad_row 10 r)) rows)"
proof -
  have c: "read_csv text = Inr (map (pad_row 10) rows)"
    using assms by (simp add: read_csv_short_lines)
  have "\<forall>r\<in>set rows. row_date (pad_row 10 r) = Inr (date_of r)"
    using assms(2) by simp
  then have s: "sequence (map (\<lambda>r. row_date (pad_row 10 r)) rows) = Inr (map date_of rows)"
    by (rule sequence_map_Inr)
  show ?thesis
    by (simp add: parse_text_def c comp_def s zip_map_same)
qed

lemma line_example:
  "tokenize ''2024 60 X T 1.0 2.0 3.0 0.1''
   = Inr [[''2024'', ''60'', ''X'', ''T'', ''1.0'', ''2.0'', ''3.0'', ''0.1'']]"
  "row_date (pad_row 10 [''2024'', ''60'', ''X'', ''T'', ''1.0'', ''2.0'', ''3.0'', ''0.1''])
   = Inr ''02/29/2024''"
  by code_simp+

theorem short_lines_accepted_witness:
  "parse_text id ''2024 60 X T 1.0 2.0 3.0 0.1''
   = Inr [make_row id ''02/29/2024''
            (pad_row 10 [''2024'', ''60'', ''X'', ''T'', ''1.0'', ''2.0'', ''3.0'', ''0.1''])]"
proof -
  have h: "\<forall>r\<in>set [[''2024'', ''60'', ''X'', ''T'', ''1.0'', ''2.0'', ''3.0'', ''0.1'']].
             length r \<le> 10 \<and> row_date (pad_row 10 r) = Inr ((\<lambda>r. ''02/29/2024'') r)"
    by (simp add: line_example)
  from short_lines_accepted [OF line_example(1) h, of id] show ?thesis
    by simp
qed

section \<open>Fetching\<close>

text \<open>
  C8: when the request raises a \<open>RequestException\<close> (the connection fails, or the status
  is an error status), \<open>read_txt_from_url\<close> returns \<open>None\<close> and the handler of the
  \<open>Fetch Data\<close> button changes nothing of the session but \<open>show_date_filter\<close>, which
  becomes \<open>False\<close>: the frame of the last successful fetch stays in \<open>data\<close>.
\<close>

theorem fetch_failure_keeps_data:
  assumes "selected_site \<noteq> []"
    and "get (site_url selected_site) = Failed \<or>
         (\<exists>status text. get (site_url selected_site) = Response status text
                         \<and> raise_for_status status = Inl RequestException)"
  shows "read_txt_from_url get num (site_url selected_site) = Inr None \<and>
         fetch_data get num selected_site st = Inr (st\<lparr>show_date_filter := Some False\<rparr>) \<and>
         data (st\<lparr>show_date_filter := Some False\<rparr>) = data st \<and>
         filtered_data (st\<lparr>show_date_filter := Some False\<rparr>) = filtered_data st"
proof -
  have "read_txt_from_url get num (site_url selected_site) = Inr None"
    using assms(2) by (auto simp: read_txt_from_url_def)
  then show ?thesis using assms(1) by (simp add: fetch_data_def)
qed

theorem fetch_failure_keeps_data_witness:
  "fetch_data (\<lambda>u. Response 404 ''Not Found'') (\<lambda>c. c) ''ab14''
     \<lparr>data = Some [make_row (\<lambda>c. c) ''01/02/2024'' (replicate 10 None)],
      show_date_filter = Some True, filtered_data = None\<rparr>
   = Inr \<lparr>data = Some [make_row (\<lambda>c. c) ''01/02/2024'' (replicate 10 None)],
          show_date_filter = Some False, filtered_data = None\<rparr>"
  using fetch_failure_keeps_data [of "''ab14''" "\<lambda>u. Response 404 ''Not Found''" "\<lambda>c. c"
      "\<lparr>data = Some [make_row (\<lambda>c. c) ''01/02/2024'' (replicate 10 None)],
        show_date_filter = Some True, filtered_data = None\<rparr>"]
  by (simp add: raise_for_status_def)

end
